theory Spec2Isabelle
  imports Complex_Main
begin

section \<open>JavaScript values and the helpers of the external packages\<close>

text \<open>
  The builder receives untyped JavaScript values. The model keeps the kinds the code
  tells apart: \<open>undefined\<close>, \<open>null\<close>, strings, numbers, and everything else (arrays,
  objects, functions, booleans, symbols) as \<open>JOther\<close>. Numbers are rationals; NaN and
  the infinities are left out.

  The numbers of the code are IEEE doubles. On the safe integers, from \<open>-(2^53 - 1)\<close> to
  \<open>2^53 - 1\<close>, sums, differences and products of integers are exact as long as the
  result is a safe integer, and so is the ceiling of a quotient of two of them, so the
  exact arithmetic of the model is the arithmetic of the code there; beyond them it is
  not, and every statement on arithmetic carries that bound.
\<close>

datatype jsval = JUndefined | JNull | JStr string | JNum rat | JOther

text \<open>
  The predicates of \<open>@megaorm/test\<close>, an external package, modelled by what their names
  and the repository's tests say: a full string is a non-empty string, an integer is a
  number without fractional part.
\<close>

fun isStr :: "jsval \<Rightarrow> bool" where
  "isStr (JStr s) = True"
| "isStr v = False"

fun isFullStr :: "jsval \<Rightarrow> bool" where
  "isFullStr (JStr s) = (s \<noteq> [])"
| "isFullStr v = False"

fun isNum :: "jsval \<Rightarrow> bool" where
  "isNum (JNum x) = True"
| "isNum v = False"

fun isInt :: "jsval \<Rightarrow> bool" where
  "isInt (JNum x) = (rat_of_int \<lfloor>x\<rfloor> = x)"
| "isInt v = False"

fun isNull :: "jsval \<Rightarrow> bool" where
  "isNull JNull = True"
| "isNull v = False"

fun isUndefined :: "jsval \<Rightarrow> bool" where
  "isUndefined JUndefined = True"
| "isUndefined v = False"

text \<open>The text of a value known to be a string (\<open>[]\<close> otherwise, never relied on).\<close>

fun str_of :: "jsval \<Rightarrow> string" where
  "str_of (JStr s) = s"
| "str_of v = []"

definition safe_integer :: "int \<Rightarrow> bool" where
  "safe_integer n = (- (2 ^ 53 - 1) \<le> n \<and> n \<le> 2 ^ 53 - 1)"

text \<open>The integer of a value known to be an integral number.\<close>

fun int_of :: "jsval \<Rightarrow> int" where
  "int_of (JNum x) = \<lfloor>x\<rfloor>"
| "int_of v = 0"

subsection \<open>Strings\<close>

text \<open>\<open>Array.prototype.join\<close> on an array of strings.\<close>

fun join :: "string \<Rightarrow> string list \<Rightarrow> string" where
  "join sep [] = []"
| "join sep [x] = x"
| "join sep (x # y # ys) = x @ sep @ join sep (y # ys)"

text \<open>
  The white space of \<open>String.prototype.trim\<close> and of the regular expression class
  \<open>\s\<close>, as far as it fits a byte: tab, line feed, vertical tab, form feed, carriage
  return, space and the no-break space.
\<close>

definition is_space :: "char \<Rightarrow> bool" where
  "is_space c = (c = CHR 0x09 \<or> c = CHR 0x0A \<or> c = CHR 0x0B \<or> c = CHR 0x0C
                 \<or> c = CHR 0x0D \<or> c = CHR 0x20 \<or> c = CHR 0xA0)"

definition trim :: "string \<Rightarrow> string" where
  "trim s = rev (dropWhile is_space (rev (dropWhile is_space s)))"

fun startsWith :: "string \<Rightarrow> string \<Rightarrow> bool" where
  "startsWith s [] = True"
| "startsWith [] (p # ps) = False"
| "startsWith (c # cs) (p # ps) = (c = p \<and> startsWith cs ps)"

definition endsWith :: "string \<Rightarrow> string \<Rightarrow> bool" where
  "endsWith s p = startsWith (rev s) (rev p)"

text \<open>
  The regular expressions of \<open>Condition.build\<close> all have the shape \<open>/A\s*B/\<close> with
  literal texts \<open>A\<close> and \<open>B\<close>, where \<open>B\<close> does not begin with white space: the text
  matches at a position when \<open>A\<close> stands there and \<open>B\<close> follows after all the white space
  behind it. \<open>regex_test\<close> is \<open>RegExp.prototype.test\<close> for such an expression: a match at
  some position.
\<close>

definition matches_here :: "string \<Rightarrow> string \<Rightarrow> string \<Rightarrow> bool" where
  "matches_here a b s =
     (startsWith s a \<and> startsWith (dropWhile is_space (drop (length a) s)) b)"

fun regex_test :: "string \<Rightarrow> string \<Rightarrow> string \<Rightarrow> bool" where
  "regex_test a b [] = matches_here a b []"
| "regex_test a b (c # cs) = (matches_here a b (c # cs) \<or> regex_test a b cs)"

text \<open>The number of placeholders \<open>?\<close> in a text.\<close>

definition placeholders :: "string \<Rightarrow> nat" where
  "placeholders s = count_list s (CHR ''?'')"

section \<open>Errors and connections\<close>

text \<open>
  Every failure of the builder is a \<open>QueryError\<close> with a message. The model keeps the
  fixed part of each message and leaves out the value the code interpolates behind it.
\<close>

datatype error = QueryError string

text \<open>
  A method writes to its object and may throw after it has written. The outcome of a
  call on an object is the object it returns (\<open>Inr\<close>), or the error it raises together
  with the object as the throw leaves it (\<open>Inl\<close>). A function that only computes a
  value has the result type \<open>error + 'a\<close>.
\<close>

type_synonym 's outcome = "error \<times> 's + 's"

text \<open>
  A method that makes all its checks before its first write: when it raises, the object
  is as it was.
\<close>

definition atomic :: "('s \<Rightarrow> error + 's) \<Rightarrow> 's \<Rightarrow> 's outcome" where
  "atomic f s = (case f s of Inl e \<Rightarrow> Inl (e, s) | Inr s' \<Rightarrow> Inr s')"

text \<open>
  The object after a call whose throw, if any, was caught; and the outcome for a caller
  that does not catch, who has no object left to go on with.
\<close>

definition caught :: "'s outcome \<Rightarrow> 's" where
  "caught r = (case r of Inl (e, s) \<Rightarrow> s | Inr s \<Rightarrow> s)"

definition uncaught :: "'s outcome \<Rightarrow> error + 's" where
  "uncaught r = (case r of Inl (e, s) \<Rightarrow> Inl e | Inr s \<Rightarrow> Inr s)"

datatype driver = MySQL | PostgreSQL | SQLite

text \<open>
  A connection as the builder sees it: a pool connection with its driver kind, or a
  value that \<open>isPoolCon\<close> refuses.
\<close>

datatype connection = PoolCon driver | NotPoolCon

fun isPoolCon :: "connection \<Rightarrow> bool" where
  "isPoolCon (PoolCon d) = True"
| "isPoolCon NotPoolCon = False"

fun isMySQL :: "connection \<Rightarrow> bool" where
  "isMySQL (PoolCon d) = (d = MySQL)"
| "isMySQL NotPoolCon = False"

fun isPostgreSQL :: "connection \<Rightarrow> bool" where
  "isPostgreSQL (PoolCon d) = (d = PostgreSQL)"
| "isPostgreSQL NotPoolCon = False"

section \<open>Condition.ts: references and date-part fragments\<close>

text \<open>
  An operand of a comparison: a \<open>Ref\<close> instance holding a column text, or any other
  value. \<open>ref\<close> is the only exported way to make a \<open>Ref\<close>.
\<close>

datatype operand = Ref string | Val jsval

fun isRef :: "operand \<Rightarrow> bool" where
  "isRef (Ref c) = True"
| "isRef (Val v) = False"

definition ref :: "jsval \<Rightarrow> error + operand" where
  "ref column =
     (if \<not> isFullStr column then Inl (QueryError ''Invalid column reference'')
      else Inr (Ref (str_of column)))"

definition exDate :: "jsval \<Rightarrow> error + string" where
  "exDate col =
     (if \<not> isStr col then Inl (QueryError ''Invalid column name'')
      else Inr (''DATE('' @ str_of col @ '')''))"

definition exTime :: "jsval \<Rightarrow> connection \<Rightarrow> error + string" where
  "exTime col con =
     (if \<not> isStr col then Inl (QueryError ''Invalid column name'')
      else if \<not> isPoolCon con then Inl (QueryError ''Invalid connection'')
      else if isMySQL con then Inr (''TIME('' @ str_of col @ '')'')
      else if isPostgreSQL con then Inr (''TO_CHAR('' @ str_of col @ '', 'HH24:MI:SS')'')
      else Inr (''STRFTIME('%H:%M:%S', '' @ str_of col @ '')''))"

definition exYear :: "jsval \<Rightarrow> connection \<Rightarrow> error + string" where
  "exYear col con =
     (if \<not> isStr col then Inl (QueryError ''Invalid column name'')
      else if \<not> isPoolCon con then Inl (QueryError ''Invalid connection'')
      else if isMySQL con then Inr (''YEAR('' @ str_of col @ '')'')
      else if isPostgreSQL con then Inr (''EXTRACT(YEAR FROM '' @ str_of col @ '')'')
      else Inr (''STRFTIME('%Y', '' @ str_of col @ '')''))"

definition exMonth :: "jsval \<Rightarrow> connection \<Rightarrow> error + string" where
  "exMonth col con =
     (if \<not> isStr col then Inl (QueryError ''Invalid column name'')
      else if \<not> isPoolCon con then Inl (QueryError ''Invalid connection'')
      else if isMySQL con then Inr (''MONTH('' @ str_of col @ '')'')
      else if isPostgreSQL con then Inr (''EXTRACT(MONTH FROM '' @ str_of col @ '')'')
      else Inr (''STRFTIME('%m', '' @ str_of col @ '')''))"

definition exDay :: "jsval \<Rightarrow> connection \<Rightarrow> error + string" where
  "exDay col con =
     (if \<not> isStr col then Inl (QueryError ''Invalid column name'')
      else if \<not> isPoolCon con then Inl (QueryError ''Invalid connection'')
      else if isMySQL con then Inr (''DAY('' @ str_of col @ '')'')
      else if isPostgreSQL con then Inr (''EXTRACT(DAY FROM '' @ str_of col @ '')'')
      else Inr (''STRFTIME('%d', '' @ str_of col @ '')''))"

definition exHour :: "jsval \<Rightarrow> connection \<Rightarrow> error + string" where
  "exHour col con =
     (if \<not> isStr col then Inl (QueryError ''Invalid column name'')
      else if \<not> isPoolCon con then Inl (QueryError ''Invalid connection'')
      else if isMySQL con then Inr (''HOUR('' @ str_of col @ '')'')
      else if isPostgreSQL con then Inr (''EXTRACT(HOUR FROM '' @ str_of col @ '')'')
      else Inr (''STRFTIME('%H', '' @ str_of col @ '')''))"

definition exMinute :: "jsval \<Rightarrow> connection \<Rightarrow> error + string" where
  "exMinute col con =
     (if \<not> isStr col then Inl (QueryError ''Invalid column name'')
      else if \<not> isPoolCon con then Inl (QueryError ''Invalid connection'')
      else if isMySQL con then Inr (''MINUTE('' @ str_of col @ '')'')
      else if isPostgreSQL con then Inr (''EXTRACT(MINUTE FROM '' @ str_of col @ '')'')
      else Inr (''STRFTIME('%M', '' @ str_of col @ '')''))"

definition exSecond :: "jsval \<Rightarrow> connection \<Rightarrow> error + string" where
  "exSecond col con =
     (if \<not> isStr col then Inl (QueryError ''Invalid column name'')
      else if \<not> isPoolCon con then Inl (QueryError ''Invalid connection'')
      else if isMySQL con then Inr (''SECOND('' @ str_of col @ '')'')
      else if isPostgreSQL con then Inr (''EXTRACT(SECOND FROM '' @ str_of col @ '')'')
      else Inr (''STRFTIME('%S', '' @ str_of col @ '')''))"

section \<open>Condition.ts: the condition builder\<close>

text \<open>
  The fields of a \<open>Condition\<close>. The field \<open>column\<close> is \<open>undefined\<close> (\<open>None\<close>) until \<open>col\<close>
  sets it. The field \<open>query\<close> is a reference to the owning statement: the methods that
  push bound values through it take and return the owner's value sink next to the
  condition.
\<close>

record condition =
  c_stack :: "string list"
  c_negate :: bool
  c_opened :: int
  c_column :: "string option"

definition Condition_new :: condition where
  "Condition_new = \<lparr>c_stack = [], c_negate = False, c_opened = 0, c_column = None\<rparr>"

definition Condition_build :: "condition \<Rightarrow> error + string" where
  "Condition_build c =
     (let condition = trim (concat (c_stack c)) in
      if c_opened c \<noteq> 0 then
        Inl (QueryError ''Syntax error: Unmatched parentheses.'')
      else if regex_test ''('' ''AND'' condition \<or> regex_test ''('' ''OR'' condition then
        Inl (QueryError ''Invalid syntax: AND/OR cannot directly follow an opening parenthesis.'')
      else if regex_test ''AND'' '')'' condition \<or> regex_test ''OR'' '')'' condition then
        Inl (QueryError ''Invalid syntax: AND/OR cannot directly precede a closing parenthesis.'')
      else if regex_test ''AND'' ''AND'' condition \<or> regex_test ''OR'' ''OR'' condition then
        Inl (QueryError ''Invalid syntax: Consecutive AND/OR operators found.'')
      else if regex_test ''('' '')'' condition then
        Inl (QueryError ''Invalid syntax: Empty parentheses found.'')
      else if endsWith condition ''AND'' \<or> endsWith condition ''OR'' then
        Inl (QueryError ''Invalid syntax: Condition cannot end with an operator.'')
      else if startsWith condition ''AND'' \<or> startsWith condition ''OR'' then
        Inl (QueryError ''Invalid syntax: Condition cannot start with an operator.'')
      else if condition = [] then
        Inl (QueryError ''Invalid syntax: Condition cannot be empty.'')
      else Inr condition)"

section \<open>Select.ts: the state of a SELECT statement and its rendering\<close>

text \<open>
  \<open>String(n)\<close> for a non-negative integer, as a template literal prints \<open>LIMIT\<close> and
  \<open>OFFSET\<close> values: the decimal digits. (From \<open>10^21\<close> on, far beyond the safe integers,
  the code prints the exponent form; neither form holds a \<open>?\<close>.)
\<close>

definition digit_char :: "nat \<Rightarrow> char" where
  "digit_char d = ''0123456789'' ! d"

function string_of_nat :: "nat \<Rightarrow> string" where
  "string_of_nat n =
     (if n < 10 then [digit_char n] else string_of_nat (n div 10) @ [digit_char (n mod 10)])"
  by pat_completeness auto
termination
  by (relation "measure (\<lambda>n. n)") auto

declare string_of_nat.simps [simp del]

record join_clause =
  j_table :: string
  j_type :: string
  j_condition :: condition

text \<open>
  The fields of \<open>Select\<close>: its \<open>state\<close> object and the three fields inherited from
  \<open>Query\<close>. \<open>sel_columns = None\<close> is the text \<open>*\<close>; an absent table, limit, offset or
  condition is \<open>undefined\<close> in the source.
\<close>

record select_state =
  sel_table :: "string option"
  sel_columns :: "string list option"
  sel_order :: "(string \<times> string) list"
  sel_group :: "string list"
  sel_distinct :: bool
  sel_limit :: "nat option"
  sel_joins :: "join_clause list"
  sel_where :: "condition option"
  sel_having :: "condition option"
  sel_unions :: "(string \<times> bool) list"
  sel_offset :: "nat option"
  sel_values :: "jsval list"
  sel_query :: "string option"
  sel_connection :: connection

text \<open>The constructor of \<open>Query\<close> followed by the field initialisers of \<open>Select\<close>.\<close>

definition Select_new :: "connection \<Rightarrow> error + select_state" where
  "Select_new con =
     (if \<not> isPoolCon con then Inl (QueryError ''Invalid connection'')
      else Inr \<lparr>sel_table = None, sel_columns = None, sel_order = [], sel_group = [],
                sel_distinct = False, sel_limit = None, sel_joins = [], sel_where = None,
                sel_having = None, sel_unions = [], sel_offset = None, sel_values = [],
                sel_query = None, sel_connection = con\<rparr>)"

text \<open>The \<open>map\<close> over the joins: the first condition that fails to build raises.\<close>

fun build_joins :: "join_clause list \<Rightarrow> error + string list" where
  "build_joins [] = Inr []"
| "build_joins (j # js) =
     (case Condition_build (j_condition j) of
        Inl e \<Rightarrow> Inl e
      | Inr c \<Rightarrow>
          (case build_joins js of
             Inl e \<Rightarrow> Inl e
           | Inr rest \<Rightarrow> Inr ((j_type j @ '' JOIN '' @ j_table j @ '' ON '' @ c) # rest)))"

text \<open>The optional \<open>WHERE\<close> and \<open>HAVING\<close> parts: empty when the condition is absent.\<close>

definition build_clause :: "string \<Rightarrow> condition option \<Rightarrow> error + string" where
  "build_clause keyword c =
     (case c of
        None \<Rightarrow> Inr []
      | Some cond \<Rightarrow>
          (case Condition_build cond of
             Inl e \<Rightarrow> Inl e
           | Inr text \<Rightarrow> Inr (keyword @ text)))"

definition Select_build :: "bool \<Rightarrow> select_state \<Rightarrow> error + string" where
  "Select_build subquery s =
     (case sel_table s of
        None \<Rightarrow> Inl (QueryError ''Invalid SELECT table'')
      | Some table \<Rightarrow>
        if table = [] then Inl (QueryError ''Invalid SELECT table'')
        else
          let columns = (case sel_columns s of Some cs \<Rightarrow> join '', '' cs | None \<Rightarrow> ''*'');
              distinct = (if sel_distinct s then ''DISTINCT '' else []);
              statement = ''SELECT '' @ distinct @ columns @ '' FROM '' @ table
          in
          (case build_joins (sel_joins s) of
             Inl e \<Rightarrow> Inl e
           | Inr joins \<Rightarrow>
          (case build_clause '' WHERE '' (sel_where s) of
             Inl e \<Rightarrow> Inl e
           | Inr where_part \<Rightarrow>
          (case build_clause '' HAVING '' (sel_having s) of
             Inl e \<Rightarrow> Inl e
           | Inr having_part \<Rightarrow>
             let statement = statement
                   @ (if sel_joins s \<noteq> [] then '' '' @ join '' '' joins else [])
                   @ where_part
                   @ (if sel_group s \<noteq> [] then '' GROUP BY '' @ join '', '' (sel_group s) else [])
                   @ having_part
                   @ (if sel_order s \<noteq> []
                      then '' ORDER BY '' @ join '', '' (map (\<lambda>(column, type). column @ '' '' @ type) (sel_order s))
                      else [])
                   @ (case sel_limit s of Some n \<Rightarrow> '' LIMIT '' @ string_of_nat n | None \<Rightarrow> [])
                   @ (case sel_offset s of Some n \<Rightarrow> '' OFFSET '' @ string_of_nat n | None \<Rightarrow> [])
                   @ (if sel_unions s \<noteq> []
                      then '' '' @ join '' ''
                             (map (\<lambda>(query, all). (if all then ''UNION ALL'' else ''UNION'') @ '' '' @ query)
                                  (sel_unions s))
                      else [])
             in Inr (if subquery then statement else statement @ '';'')))))"

text \<open>
  A callback that receives a fresh \<open>Select\<close> is modelled by what it does to that object: a
  function on the state that may raise, or \<open>None\<close> for a value that is not a function.
  \<open>run_subquery\<close> is the common part of \<open>inSubquery\<close>, \<open>exists\<close>, \<open>any\<close>, \<open>all\<close>, \<open>union\<close>
  and \<open>unionAll\<close>: \<open>new Select(connection)\<close>, the callback, \<open>select.build(true)\<close> and
  \<open>select.get.values()\<close>. The fresh \<open>Select\<close> is local to the method: when the callback or
  its \<open>build\<close> raises, nothing of it is left.
\<close>

type_synonym subquery = "(select_state \<Rightarrow> select_state outcome) option"

definition run_subquery :: "connection \<Rightarrow> (select_state \<Rightarrow> select_state outcome) \<Rightarrow> error + string \<times> jsval list" where
  "run_subquery con f =
     (case Select_new con of
        Inl e \<Rightarrow> Inl e
      | Inr select \<Rightarrow>
          (case f select of
             Inl (e, left) \<Rightarrow> Inl e
           | Inr select' \<Rightarrow>
               (case Select_build True select' of
                  Inl e \<Rightarrow> Inl e
                | Inr query \<Rightarrow> Inr (query, sel_values select'))))"

section \<open>Condition.ts: the methods of the condition builder\<close>

text \<open>
  A condition together with the value sink of the statement that owns it
  (\<open>this.query.values\<close>); the owner's connection is passed where a method reads it.
\<close>

type_synonym cstate = "condition \<times> jsval list"

definition column_ok :: "condition \<Rightarrow> bool" where
  "column_ok c = (case c_column c of None \<Rightarrow> False | Some name \<Rightarrow> name \<noteq> [])"

definition the_column :: "condition \<Rightarrow> string" where
  "the_column c = (case c_column c of None \<Rightarrow> [] | Some name \<Rightarrow> name)"

definition not_text :: "condition \<Rightarrow> string" where
  "not_text c = (if c_negate c then ''NOT '' else [])"

fun placeholder :: "operand \<Rightarrow> string" where
  "placeholder (Ref column) = column"
| "placeholder (Val v) = ''?''"

fun push_operand :: "operand \<Rightarrow> jsval list \<Rightarrow> jsval list" where
  "push_operand (Ref column) vs = vs"
| "push_operand (Val v) vs = vs @ [v]"

fun operand_ok :: "(jsval \<Rightarrow> bool) \<Rightarrow> operand \<Rightarrow> bool" where
  "operand_ok valid (Ref column) = True"
| "operand_ok valid (Val v) = valid v"

fun num_of :: "jsval \<Rightarrow> rat" where
  "num_of (JNum x) = x"
| "num_of v = 0"

definition push_fragment :: "string \<Rightarrow> condition \<Rightarrow> condition" where
  "push_fragment text c = c\<lparr>c_stack := c_stack c @ [text], c_negate := False\<rparr>"

text \<open>
  The thirteen comparisons with one operand share one body in the source, copied from
  method to method: the column check, the operand check with the method's own test and
  message, the \<open>NOT\<close> prefix, the left-hand side (the column, or its date part), the
  operator, the placeholder or the reference's text, the push of the value unless it is
  a reference, and the reset of the negation flag. All the checks come before the first
  write, here and in \<open>between\<close>, \<open>in\<close>, \<open>isNull\<close>, \<open>inSubquery\<close>, \<open>exists\<close>, \<open>any\<close>, \<open>all\<close>
  and \<open>col\<close>: these methods have the result type \<open>error + cstate\<close>, and \<open>atomic\<close> gives
  their outcome.
\<close>

definition comparison ::
  "(jsval \<Rightarrow> bool) \<Rightarrow> string \<Rightarrow> (string \<Rightarrow> error + string) \<Rightarrow> string \<Rightarrow> operand \<Rightarrow> cstate \<Rightarrow> error + cstate" where
  "comparison valid message lhs sign x cs =
     (case cs of (c, vs) \<Rightarrow>
        if \<not> column_ok c then Inl (QueryError ''Invalid column'')
        else if \<not> operand_ok valid x then Inl (QueryError message)
        else
          (case lhs (the_column c) of
             Inl e \<Rightarrow> Inl e
           | Inr l \<Rightarrow>
               Inr (push_fragment (not_text c @ l @ sign @ placeholder x) c, push_operand x vs)))"

definition Condition_inDate :: "operand \<Rightarrow> cstate \<Rightarrow> error + cstate" where
  "Condition_inDate date =
     comparison isFullStr ''Invalid date'' (\<lambda>column. exDate (JStr column)) '' = '' date"

definition Condition_inTime :: "connection \<Rightarrow> operand \<Rightarrow> cstate \<Rightarrow> error + cstate" where
  "Condition_inTime con time =
     comparison isFullStr ''Invalid time'' (\<lambda>column. exTime (JStr column) con) '' = '' time"

definition Condition_inYear :: "connection \<Rightarrow> operand \<Rightarrow> cstate \<Rightarrow> error + cstate" where
  "Condition_inYear con year =
     comparison (\<lambda>v. isInt v \<and> num_of v > 0) ''Invalid year''
       (\<lambda>column. exYear (JStr column) con) '' = '' year"

definition Condition_inMonth :: "connection \<Rightarrow> operand \<Rightarrow> cstate \<Rightarrow> error + cstate" where
  "Condition_inMonth con month =
     comparison (\<lambda>v. isInt v \<and> num_of v \<ge> 1 \<and> num_of v \<le> 12) ''Invalid month''
       (\<lambda>column. exMonth (JStr column) con) '' = '' month"

definition Condition_inDay :: "connection \<Rightarrow> operand \<Rightarrow> cstate \<Rightarrow> error + cstate" where
  "Condition_inDay con day =
     comparison (\<lambda>v. isInt v \<and> num_of v \<ge> 1 \<and> num_of v \<le> 31) ''Invalid day''
       (\<lambda>column. exDay (JStr column) con) '' = '' day"

definition Condition_inHour :: "connection \<Rightarrow> operand \<Rightarrow> cstate \<Rightarrow> error + cstate" where
  "Condition_inHour con hour =
     comparison (\<lambda>v. isInt v \<and> num_of v \<ge> 0 \<and> num_of v \<le> 23) ''Invalid hour''
       (\<lambda>column. exHour (JStr column) con) '' = '' hour"

definition Condition_inMinute :: "connection \<Rightarrow> operand \<Rightarrow> cstate \<Rightarrow> error + cstate" where
  "Condition_inMinute con minute =
     comparison (\<lambda>v. isInt v \<and> num_of v \<ge> 0 \<and> num_of v \<le> 59) ''Invalid minute''
       (\<lambda>column. exMinute (JStr column) con) '' = '' minute"

definition Condition_inSecond :: "connection \<Rightarrow> operand \<Rightarrow> cstate \<Rightarrow> error + cstate" where
  "Condition_inSecond con second =
     comparison (\<lambda>v. isInt v \<and> num_of v \<ge> 0 \<and> num_of v \<le> 59) ''Invalid second''
       (\<lambda>column. exSecond (JStr column) con) '' = '' second"

definition Condition_equal :: "operand \<Rightarrow> cstate \<Rightarrow> error + cstate" where
  "Condition_equal v =
     comparison (\<lambda>v. isFullStr v \<or> isNum v) ''Invalid value'' Inr '' = '' v"

definition Condition_lessThan :: "operand \<Rightarrow> cstate \<Rightarrow> error + cstate" where
  "Condition_lessThan v =
     comparison (\<lambda>v. isFullStr v \<or> isNum v) ''Invalid value'' Inr '' < '' v"

definition Condition_lessThanOrEqual :: "operand \<Rightarrow> cstate \<Rightarrow> error + cstate" where
  "Condition_lessThanOrEqual v =
     comparison (\<lambda>v. isFullStr v \<or> isNum v) ''Invalid value'' Inr '' <= '' v"

definition Condition_greaterThan :: "operand \<Rightarrow> cstate \<Rightarrow> error + cstate" where
  "Condition_greaterThan v =
     comparison (\<lambda>v. isFullStr v \<or> isNum v) ''Invalid value'' Inr '' > '' v"

definition Condition_greaterThanOrEqual :: "operand \<Rightarrow> cstate \<Rightarrow> error + cstate" where
  "Condition_greaterThanOrEqual v =
     comparison (\<lambda>v. isFullStr v \<or> isNum v) ''Invalid value'' Inr '' >= '' v"

definition Condition_like :: "operand \<Rightarrow> cstate \<Rightarrow> error + cstate" where
  "Condition_like v = comparison isFullStr ''Invalid value'' Inr '' LIKE '' v"

definition Condition_between :: "operand \<Rightarrow> operand \<Rightarrow> cstate \<Rightarrow> error + cstate" where
  "Condition_between start end cs =
     (case cs of (c, vs) \<Rightarrow>
        if \<not> column_ok c then Inl (QueryError ''Invalid column'')
        else if \<not> operand_ok (\<lambda>v. isFullStr v \<or> isNum v) start then
          Inl (QueryError ''Invalid start value'')
        else if \<not> operand_ok (\<lambda>v. isFullStr v \<or> isNum v) end then
          Inl (QueryError ''Invalid end value'')
        else
          Inr (push_fragment
                 (not_text c @ the_column c @ '' BETWEEN '' @ placeholder start @ '' AND ''
                    @ placeholder end) c,
               push_operand end (push_operand start vs)))"

definition Condition_in :: "operand list \<Rightarrow> cstate \<Rightarrow> error + cstate" where
  "Condition_in values cs =
     (case cs of (c, vs) \<Rightarrow>
        if \<not> column_ok c then Inl (QueryError ''Invalid column'')
        else if values = [] then Inl (QueryError ''Values array cannot be empty for IN clause'')
        else if \<not> list_all (operand_ok (\<lambda>v. isFullStr v \<or> isNum v)) values then
          Inl (QueryError ''Invalid value'')
        else
          Inr (push_fragment
                 (not_text c @ the_column c @ '' IN ('' @ join '', '' (map placeholder values) @ '')'') c,
               fold push_operand values vs))"

definition Condition_isNull :: "cstate \<Rightarrow> error + cstate" where
  "Condition_isNull cs =
     (case cs of (c, vs) \<Rightarrow>
        if \<not> column_ok c then Inl (QueryError ''Invalid column'')
        else Inr (push_fragment (not_text c @ the_column c @ '' IS NULL'') c, vs))"

definition Condition_inSubquery :: "connection \<Rightarrow> subquery \<Rightarrow> cstate \<Rightarrow> error + cstate" where
  "Condition_inSubquery con subquery cs =
     (case cs of (c, vs) \<Rightarrow>
        if \<not> column_ok c then Inl (QueryError ''Invalid column'')
        else
          (case subquery of
             None \<Rightarrow> Inl (QueryError ''Invalid subquery'')
           | Some f \<Rightarrow>
               (case run_subquery con f of
                  Inl e \<Rightarrow> Inl e
                | Inr (query, values) \<Rightarrow>
                    Inr (push_fragment (not_text c @ the_column c @ '' IN ('' @ query @ '')'') c,
                         vs @ values))))"

definition Condition_exists :: "connection \<Rightarrow> subquery \<Rightarrow> cstate \<Rightarrow> error + cstate" where
  "Condition_exists con subquery cs =
     (case cs of (c, vs) \<Rightarrow>
        (case subquery of
           None \<Rightarrow> Inl (QueryError ''Invalid subquery'')
         | Some f \<Rightarrow>
             (case run_subquery con f of
                Inl e \<Rightarrow> Inl e
              | Inr (query, values) \<Rightarrow>
                  Inr (push_fragment (not_text c @ ''EXISTS ('' @ query @ '')'') c, vs @ values))))"

text \<open>
  The comparison operators are unique symbols; \<open>description\<close> is the text a symbol was
  made with. An argument that is none of the six symbols is \<open>None\<close>.
\<close>

datatype operator = EQUAL | NOT_EQUAL | LESS | LESS_OR_EQUAL | MORE | MORE_OR_EQUAL

fun description :: "operator \<Rightarrow> string" where
  "description EQUAL = ''=''"
| "description NOT_EQUAL = ''!=''"
| "description LESS = ''<''"
| "description LESS_OR_EQUAL = ''<=''"
| "description MORE = ''>''"
| "description MORE_OR_EQUAL = ''>=''"

definition quantified ::
  "string \<Rightarrow> connection \<Rightarrow> operator option \<Rightarrow> subquery \<Rightarrow> cstate \<Rightarrow> error + cstate" where
  "quantified word con operator subquery cs =
     (case cs of (c, vs) \<Rightarrow>
        if \<not> column_ok c then Inl (QueryError ''Invalid column'')
        else
          (case operator of
             None \<Rightarrow> Inl (QueryError ''Invalid operator'')
           | Some op \<Rightarrow>
               (case subquery of
                  None \<Rightarrow> Inl (QueryError ''Invalid subquery'')
                | Some f \<Rightarrow>
                    (case run_subquery con f of
                       Inl e \<Rightarrow> Inl e
                     | Inr (query, values) \<Rightarrow>
                         Inr (push_fragment
                                (not_text c @ the_column c @ '' '' @ description op @ word
                                   @ query @ '')'') c,
                              vs @ values)))))"

definition Condition_any :: "connection \<Rightarrow> operator option \<Rightarrow> subquery \<Rightarrow> cstate \<Rightarrow> error + cstate" where
  "Condition_any = quantified '' ANY (''"

definition Condition_all :: "connection \<Rightarrow> operator option \<Rightarrow> subquery \<Rightarrow> cstate \<Rightarrow> error + cstate" where
  "Condition_all = quantified '' ALL (''"

text \<open>
  \<open>raw\<close> checks and pushes the values one by one, so when it raises at the first invalid
  value the valid ones before it are in the owner's sink already; the text is pushed
  last, and the negation flag is neither read nor written.
\<close>

definition Condition_raw :: "jsval \<Rightarrow> jsval list \<Rightarrow> cstate \<Rightarrow> cstate outcome" where
  "Condition_raw condition values cs =
     (case cs of (c, vs) \<Rightarrow>
        if \<not> isFullStr condition then Inl (QueryError ''Invalid condition'', (c, vs))
        else if \<not> list_all (\<lambda>v. isFullStr v \<or> isNum v) values then
          Inl (QueryError ''Invalid condition value'',
               (c, vs @ takeWhile (\<lambda>v. isFullStr v \<or> isNum v) values))
        else Inr (c\<lparr>c_stack := c_stack c @ [str_of condition]\<rparr>, vs @ values))"

definition Condition_not :: "condition \<Rightarrow> condition" where
  "Condition_not c = c\<lparr>c_negate := True\<rparr>"

definition Condition_open :: "condition \<Rightarrow> condition" where
  "Condition_open c = c\<lparr>c_stack := c_stack c @ [''(''], c_opened := c_opened c + 1\<rparr>"

definition Condition_close :: "condition \<Rightarrow> condition" where
  "Condition_close c = c\<lparr>c_stack := c_stack c @ ['')''], c_opened := c_opened c - 1\<rparr>"

definition Condition_paren :: "condition \<Rightarrow> condition" where
  "Condition_paren c = (if c_opened c = 0 then Condition_open c else Condition_close c)"

definition Condition_and :: "condition \<Rightarrow> condition" where
  "Condition_and c = c\<lparr>c_stack := c_stack c @ ['' AND '']\<rparr>"

definition Condition_or :: "condition \<Rightarrow> condition" where
  "Condition_or c = c\<lparr>c_stack := c_stack c @ ['' OR '']\<rparr>"

definition Condition_col :: "jsval \<Rightarrow> condition \<Rightarrow> error + condition" where
  "Condition_col name c =
     (if \<not> isFullStr name then Inl (QueryError ''Invalid column name'')
      else Inr (c\<lparr>c_column := Some (str_of name)\<rparr>))"

section \<open>Select.ts: the methods of the SELECT builder\<close>

text \<open>
  A callback that receives \<open>col\<close> and the condition is modelled by what it does to the
  condition and, through it, to the owner's value sink; \<open>None\<close> is a value that is not a
  function. When the callback raises, the condition and the sink are as its calls have
  left them.
\<close>

type_synonym callback = "(cstate \<Rightarrow> cstate outcome) option"

definition Select_reset :: "select_state \<Rightarrow> select_state" where
  "Select_reset s =
     s\<lparr>sel_table := None, sel_columns := None, sel_order := [], sel_group := [],
       sel_distinct := False, sel_limit := None, sel_joins := [], sel_where := None,
       sel_unions := [], sel_having := None, sel_values := [], sel_query := None\<rparr>"

definition Select_and :: "select_state \<Rightarrow> error + select_state" where
  "Select_and s =
     (case sel_where s of
        None \<Rightarrow> Inl (QueryError ''Invalid SELECT condition'')
      | Some c \<Rightarrow> Inr (s\<lparr>sel_where := Some (Condition_and c)\<rparr>))"

definition Select_or :: "select_state \<Rightarrow> error + select_state" where
  "Select_or s =
     (case sel_where s of
        None \<Rightarrow> Inl (QueryError ''Invalid SELECT condition'')
      | Some c \<Rightarrow> Inr (s\<lparr>sel_where := Some (Condition_or c)\<rparr>))"

definition Select_paren :: "select_state \<Rightarrow> select_state" where
  "Select_paren s =
     (let c = (case sel_where s of None \<Rightarrow> Condition_new | Some c \<Rightarrow> c)
      in s\<lparr>sel_where := Some (Condition_paren c)\<rparr>)"

definition Select_open :: "select_state \<Rightarrow> select_state" where
  "Select_open s =
     (let c = (case sel_where s of None \<Rightarrow> Condition_new | Some c \<Rightarrow> c)
      in s\<lparr>sel_where := Some (Condition_open c)\<rparr>)"

definition Select_close :: "select_state \<Rightarrow> error + select_state" where
  "Select_close s =
     (case sel_where s of
        None \<Rightarrow> Inl (QueryError ''Invalid SELECT condition'')
      | Some c \<Rightarrow> Inr (s\<lparr>sel_where := Some (Condition_close c)\<rparr>))"

definition Select_col :: "jsval list \<Rightarrow> select_state \<Rightarrow> error + select_state" where
  "Select_col columns s =
     (if \<not> list_all isFullStr columns then Inl (QueryError ''Invalid SELECT column'')
      else Inr (s\<lparr>sel_columns := Some (map str_of columns)\<rparr>))"

definition Select_from :: "jsval \<Rightarrow> select_state \<Rightarrow> error + select_state" where
  "Select_from name s =
     (if \<not> isFullStr name then Inl (QueryError ''Invalid SELECT table'')
      else Inr (s\<lparr>sel_table := Some (str_of name)\<rparr>))"

definition Select_distinct :: "select_state \<Rightarrow> select_state" where
  "Select_distinct s = s\<lparr>sel_distinct := True\<rparr>"

definition Select_offset :: "jsval \<Rightarrow> select_state \<Rightarrow> error + select_state" where
  "Select_offset v s =
     (if \<not> isInt v \<or> num_of v < 0 then Inl (QueryError ''Invalid OFFSET value'')
      else Inr (s\<lparr>sel_offset := Some (nat (int_of v))\<rparr>))"

definition Select_limit :: "jsval \<Rightarrow> select_state \<Rightarrow> error + select_state" where
  "Select_limit v s =
     (if \<not> isInt v \<or> num_of v < 0 then Inl (QueryError ''Invalid LIMIT value'')
      else Inr (s\<lparr>sel_limit := Some (nat (int_of v))\<rparr>))"

text \<open>
  \<open>join\<close>, \<open>leftJoin\<close> and \<open>rightJoin\<close> differ in the join type only: a new condition is
  made for each join and the callback runs on it before the join is pushed. When the
  callback raises, the join is not pushed and its condition is lost, but the values
  the callback has bound are in the sink.
\<close>

definition add_join :: "string \<Rightarrow> jsval \<Rightarrow> callback \<Rightarrow> select_state \<Rightarrow> select_state outcome" where
  "add_join type table condition s =
     (if \<not> isFullStr table then Inl (QueryError ''Invalid JOIN table'', s)
      else
        (case condition of
           None \<Rightarrow> Inl (QueryError ''Invalid JOIN condition'', s)
         | Some f \<Rightarrow>
             (case f (Condition_new, sel_values s) of
                Inl (e, (c, vs)) \<Rightarrow> Inl (e, s\<lparr>sel_values := vs\<rparr>)
              | Inr (c, vs) \<Rightarrow>
                  Inr (s\<lparr>sel_joins := sel_joins s
                             @ [\<lparr>j_table = str_of table, j_type = type, j_condition = c\<rparr>],
                         sel_values := vs\<rparr>))))"

definition Select_join :: "jsval \<Rightarrow> callback \<Rightarrow> select_state \<Rightarrow> select_state outcome" where
  "Select_join = add_join ''INNER''"

definition Select_leftJoin :: "jsval \<Rightarrow> callback \<Rightarrow> select_state \<Rightarrow> select_state outcome" where
  "Select_leftJoin = add_join ''LEFT''"

definition Select_rightJoin :: "jsval \<Rightarrow> callback \<Rightarrow> select_state \<Rightarrow> select_state outcome" where
  "Select_rightJoin = add_join ''RIGHT''"

definition Select_groupBy :: "jsval list \<Rightarrow> select_state \<Rightarrow> error + select_state" where
  "Select_groupBy columns s =
     (if \<not> list_all isFullStr columns then Inl (QueryError ''Invalid GROUP BY column'')
      else Inr (s\<lparr>sel_group := sel_group s @ map str_of columns\<rparr>))"

text \<open>
  The sort directions are the symbols \<open>ASC\<close> and \<open>DESC\<close>; a missing argument takes the
  default \<open>ASC\<close>, any other value is refused.
\<close>

datatype order_type = ASC | DESC | OrderMissing | OrderInvalid

definition Select_orderBy :: "jsval \<Rightarrow> order_type \<Rightarrow> select_state \<Rightarrow> error + select_state" where
  "Select_orderBy column type s =
     (if \<not> isFullStr column then Inl (QueryError ''Invalid ORDER BY column'')
      else if type = OrderInvalid then Inl (QueryError ''Invalid ORDER BY type'')
      else Inr (s\<lparr>sel_order := sel_order s
                     @ [(str_of column, if type = DESC then ''DESC'' else ''ASC'')]\<rparr>))"

text \<open>
  \<open>where\<close> and \<open>having\<close> make the condition if there is none and run the callback on it:
  when the callback raises, the condition stays, with what the callback has pushed.
\<close>

definition Select_where :: "callback \<Rightarrow> select_state \<Rightarrow> select_state outcome" where
  "Select_where condition s =
     (case condition of
        None \<Rightarrow> Inl (QueryError ''Invalid SELECT condition'', s)
      | Some f \<Rightarrow>
          (let c = (case sel_where s of None \<Rightarrow> Condition_new | Some c \<Rightarrow> c) in
           case f (c, sel_values s) of
             Inl (e, (c', vs)) \<Rightarrow> Inl (e, s\<lparr>sel_where := Some c', sel_values := vs\<rparr>)
           | Inr (c', vs) \<Rightarrow> Inr (s\<lparr>sel_where := Some c', sel_values := vs\<rparr>)))"

definition Select_having :: "callback \<Rightarrow> select_state \<Rightarrow> select_state outcome" where
  "Select_having condition s =
     (case condition of
        None \<Rightarrow> Inl (QueryError ''Invalid HAVING condition'', s)
      | Some f \<Rightarrow>
          (let c = (case sel_having s of None \<Rightarrow> Condition_new | Some c \<Rightarrow> c) in
           case f (c, sel_values s) of
             Inl (e, (c', vs)) \<Rightarrow> Inl (e, s\<lparr>sel_having := Some c', sel_values := vs\<rparr>)
           | Inr (c', vs) \<Rightarrow> Inr (s\<lparr>sel_having := Some c', sel_values := vs\<rparr>)))"

definition add_union :: "bool \<Rightarrow> string \<Rightarrow> subquery \<Rightarrow> select_state \<Rightarrow> error + select_state" where
  "add_union all message subquery s =
     (case subquery of
        None \<Rightarrow> Inl (QueryError message)
      | Some f \<Rightarrow>
          (case run_subquery (sel_connection s) f of
             Inl e \<Rightarrow> Inl e
           | Inr (query, values) \<Rightarrow>
               Inr (s\<lparr>sel_unions := sel_unions s @ [(query, all)],
                      sel_values := sel_values s @ values\<rparr>)))"

definition Select_union :: "subquery \<Rightarrow> select_state \<Rightarrow> error + select_state" where
  "Select_union = add_union False ''Invalid UNION subquery''"

definition Select_unionAll :: "subquery \<Rightarrow> select_state \<Rightarrow> error + select_state" where
  "Select_unionAll = add_union True ''Invalid UNION ALL subquery''"

text \<open>
  \<open>Query.get.query\<close>, \<open>Query.get.values\<close> and \<open>Query.exec\<close> for a \<open>Select\<close>. No method
  assigns the cached text \<open>query\<close> but \<open>reset\<close>, which clears it, so \<open>get.query\<close> builds
  unless a text was stored from outside. \<open>exec\<close> is modelled by what it hands to the
  connection: the text and the flattened values; what the connection answers is
  outside the builder. The sink of a \<open>Select\<close> holds scalars only, which \<open>flat()\<close> leaves
  as they are.
\<close>

definition Select_get_query :: "select_state \<Rightarrow> error + string" where
  "Select_get_query s =
     (case sel_query s of
        None \<Rightarrow> Select_build False s
      | Some q \<Rightarrow> if q \<noteq> [] then Inr q else Select_build False s)"

definition Select_exec :: "select_state \<Rightarrow> error + string \<times> jsval list" where
  "Select_exec s =
     (case Select_get_query s of
        Inl e \<Rightarrow> Inl e
      | Inr q \<Rightarrow> Inr (q, sel_values s))"

text \<open>
  \<open>count\<close>: the request it sends, with the column list swapped for the aggregate. The
  column list is put back when the connection settles, so the state is as before; when
  \<open>get.query()\<close> raises, the request is never sent and the aggregate stays in the column
  list.
\<close>

definition Select_count :: "select_state \<Rightarrow> error \<times> select_state + string \<times> jsval list" where
  "Select_count s =
     (case sel_table s of
        None \<Rightarrow> Inl (QueryError ''Invalid SELECT table'', s)
      | Some table \<Rightarrow>
          if table = [] then Inl (QueryError ''Invalid SELECT table'', s)
          else
            (case Select_get_query (s\<lparr>sel_columns := Some [''COUNT(*) AS count'']\<rparr>) of
               Inl e \<Rightarrow> Inl (e, s\<lparr>sel_columns := Some [''COUNT(*) AS count'']\<rparr>)
             | Inr q \<Rightarrow> Inr (q, sel_values s)))"

text \<open>
  \<open>paginate\<close>, given what the two requests resolve to: \<open>count\<close> rows in all, and
  \<open>result\<close> for the page. It returns the bundle, the request of the page read and the
  state with limit and offset set; when it rejects, the state is as the failing step
  has left it. The page, the items, the offset and the total are numbers of the code:
  the differences, the product, the sum and \<open>Math.ceil(total / items)\<close> are those of the
  code as long as \<open>page * items\<close> and \<open>total\<close> are safe integers.
\<close>

record 'r pagination =
  pg_result :: 'r
  pg_current :: int
  pg_prev :: "int option"
  pg_next :: "int option"
  pg_items :: int
  pg_total_pages :: int
  pg_total_items :: nat

definition normal_page :: "jsval \<Rightarrow> int" where
  "normal_page page = (if \<not> isInt page \<or> num_of page < 1 then 1 else int_of page)"

definition normal_items :: "jsval \<Rightarrow> int" where
  "normal_items items =
     (let items = (if isUndefined items then JNum 10 else items)
      in if \<not> isInt items \<or> num_of items < 1 then 10 else int_of items)"

definition Select_paginate ::
  "jsval \<Rightarrow> jsval \<Rightarrow> nat \<Rightarrow> 'r \<Rightarrow> select_state
     \<Rightarrow> error \<times> select_state + 'r pagination \<times> (string \<times> jsval list) \<times> select_state" where
  "Select_paginate page items count result s =
     (let page = normal_page page; items = normal_items items in
      case Select_count s of
        Inl left \<Rightarrow> Inl left
      | Inr count_request \<Rightarrow>
          let offset = (page - 1) * items in
          (case Select_limit (JNum (of_int items)) s of
             Inl e \<Rightarrow> Inl (e, s)
           | Inr s1 \<Rightarrow>
          (case Select_offset (JNum (of_int offset)) s1 of
             Inl e \<Rightarrow> Inl (e, s1)
           | Inr s2 \<Rightarrow>
          (case Select_exec s2 of
             Inl e \<Rightarrow> Inl (e, s2)
           | Inr request \<Rightarrow>
               let total = count;
                   totalPages = \<lceil>rat_of_nat total / rat_of_int items\<rceil>
               in Inr (\<lparr>pg_result = result, pg_current = page,
                         pg_prev = (if page - 1 = 0 then None else Some (page - 1)),
                         pg_next = (if page < totalPages then Some (page + 1) else None),
                         pg_items = items, pg_total_pages = totalPages,
                         pg_total_items = total\<rparr>,
                       request, s2)))))"

section \<open>Insert.ts: the INSERT builder\<close>

text \<open>
  A row argument: a plain object, given by its own keys with their values in the order
  \<open>Object.keys\<close> and \<open>Object.values\<close> list them (the keys of an object are distinct), or
  a value that \<open>isObj\<close> refuses.
\<close>

datatype row = Obj "(string \<times> jsval) list" | NotObj

text \<open>
  The sink of an \<open>Insert\<close> holds one array per row. \<open>isArrOfArr\<close> and \<open>isArrOfStr\<close> are
  helpers of the external package: the tests of \<open>build\<close> show that an empty array is
  not an array of arrays, and the model reads an array of strings the same way.
\<close>

record insert_state =
  ins_table :: "string option"
  ins_columns :: "string list option"
  ins_returnings :: "string list option"
  ins_values :: "jsval list list"
  ins_query :: "string option"
  ins_connection :: connection

definition Insert_new :: "connection \<Rightarrow> error + insert_state" where
  "Insert_new con =
     (if \<not> isPoolCon con then Inl (QueryError ''Invalid connection'')
      else Inr \<lparr>ins_table = None, ins_columns = None, ins_returnings = None,
                ins_values = [], ins_query = None, ins_connection = con\<rparr>)"

definition Insert_reset :: "insert_state \<Rightarrow> insert_state" where
  "Insert_reset s = s\<lparr>ins_table := None, ins_columns := None, ins_values := [], ins_query := None\<rparr>"

text \<open>
  \<open>build\<close> returns the text and leaves the sink without its \<open>null\<close> entries. Its checks
  come first: when it raises, the state is as it was.
\<close>

definition Insert_build :: "insert_state \<Rightarrow> error + string \<times> insert_state" where
  "Insert_build s =
     (case ins_table s of
        None \<Rightarrow> Inl (QueryError ''Invalid INSERT table'')
      | Some table \<Rightarrow>
        if table = [] then Inl (QueryError ''Invalid INSERT table'')
        else
          (case ins_columns s of
             None \<Rightarrow> Inl (QueryError ''Invalid INSERT columns'')
           | Some cols \<Rightarrow>
             if cols = [] then Inl (QueryError ''Invalid INSERT columns'')
             else if ins_values s = [] then Inl (QueryError ''Invalid INSERT values'')
             else
               let columns = join '', '' cols;
                   values = join '', ''
                     (map (\<lambda>r. ''('' @ join '', '' (map (\<lambda>v. if v = JNull then ''NULL'' else ''?'') r) @ '')'')
                          (ins_values s));
                   returnings = (case ins_returnings s of
                                   Some rs \<Rightarrow> '' RETURNING '' @ join '', '' rs
                                 | None \<Rightarrow> [])
               in Inr (''INSERT INTO '' @ table @ '' ('' @ columns @ '') VALUES '' @ values
                         @ returnings @ '';'',
                       s\<lparr>ins_values := map (filter (\<lambda>v. v \<noteq> JNull)) (ins_values s)\<rparr>)))"

definition Insert_into :: "jsval \<Rightarrow> insert_state \<Rightarrow> error + insert_state" where
  "Insert_into table s =
     (if \<not> isFullStr table then Inl (QueryError ''Invalid INSERT table'')
      else Inr (s\<lparr>ins_table := Some (str_of table)\<rparr>))"

definition Insert_returning :: "jsval list \<Rightarrow> insert_state \<Rightarrow> error + insert_state" where
  "Insert_returning columns s =
     (if columns = [] \<or> \<not> list_all isStr columns then Inl (QueryError ''Invalid RETURNING columns'')
      else Inr (s\<lparr>ins_returnings := Some (map str_of columns)\<rparr>))"

text \<open>
  \<open>row\<close> sets the column list from the first row before it checks the values of the
  row: when a value of the first row is refused, the column list stays.
\<close>

definition Insert_row :: "row \<Rightarrow> insert_state \<Rightarrow> insert_state outcome" where
  "Insert_row row s =
     (case row of
        NotObj \<Rightarrow> Inl (QueryError ''Invalid INSERT row'', s)
      | Obj kvs \<Rightarrow>
          (case (case ins_columns s of
                   Some established \<Rightarrow>
                     let columns = map fst kvs in
                     if length established \<noteq> length columns then
                       Inl (QueryError ''Invalid INSERT row'')
                     else if \<not> list_all (\<lambda>column. column \<in> set columns) established then
                       Inl (QueryError ''Invalid INSERT row'')
                     else Inr s
                 | None \<Rightarrow>
                     let columns = map fst kvs in
                     if columns = [] then Inl (QueryError ''Empty INSERT row'')
                     else Inr (s\<lparr>ins_columns := Some columns\<rparr>)) of
             Inl e \<Rightarrow> Inl (e, s)
           | Inr s1 \<Rightarrow>
               let values = map snd kvs in
               if \<not> list_all (\<lambda>value. isNull value \<or> isStr value \<or> isNum value) values then
                 Inl (QueryError ''Invalid INSERT value'', s1)
               else Inr (s1\<lparr>ins_values := ins_values s1 @ [values]\<rparr>)))"

text \<open>\<open>rows.forEach((row) => this.row(row))\<close>: the rows before a refused one stay.\<close>

fun Insert_row_each :: "row list \<Rightarrow> insert_state \<Rightarrow> insert_state outcome" where
  "Insert_row_each [] s = Inr s"
| "Insert_row_each (row # rows) s =
     (case Insert_row row s of
        Inl left \<Rightarrow> Inl left
      | Inr s1 \<Rightarrow> Insert_row_each rows s1)"

fun isObj :: "row \<Rightarrow> bool" where
  "isObj (Obj kvs) = True"
| "isObj NotObj = False"

text \<open>\<open>rows\<close>: \<open>None\<close> is an argument that is not an array.\<close>

definition Insert_rows :: "row list option \<Rightarrow> insert_state \<Rightarrow> insert_state outcome" where
  "Insert_rows rows s =
     (case rows of
        None \<Rightarrow> Inl (QueryError ''Invalid rows'', s)
      | Some rs \<Rightarrow>
          if rs = [] \<or> \<not> list_all isObj rs then Inl (QueryError ''Invalid rows'', s)
          else if length rs < 2 then Inl (QueryError ''Bulk insert requires at least 2 rows.'', s)
          else Insert_row_each rs s)"

text \<open>
  \<open>Query.get.query\<close> and \<open>Query.exec\<close> for an \<open>Insert\<close>: \<open>exec\<close> evaluates \<open>get.query()\<close>,
  which builds, before it reads and flattens the sink.
\<close>

definition Insert_get_query :: "insert_state \<Rightarrow> error + string \<times> insert_state" where
  "Insert_get_query s =
     (case ins_query s of
        None \<Rightarrow> Insert_build s
      | Some q \<Rightarrow> if q \<noteq> [] then Inr (q, s) else Insert_build s)"

definition Insert_exec :: "insert_state \<Rightarrow> error + (string \<times> jsval list) \<times> insert_state" where
  "Insert_exec s =
     (case Insert_get_query s of
        Inl e \<Rightarrow> Inl e
      | Inr (q, s1) \<Rightarrow> Inr ((q, concat (ins_values s1)), s1))"

section \<open>Update.ts: the UPDATE builder\<close>

record update_state =
  upd_table :: "string option"
  upd_columns :: "string list"
  upd_condition :: "condition option"
  upd_values :: "jsval list"
  upd_query :: "string option"
  upd_connection :: connection

definition Update_new :: "connection \<Rightarrow> error + update_state" where
  "Update_new con =
     (if \<not> isPoolCon con then Inl (QueryError ''Invalid connection'')
      else Inr \<lparr>upd_table = None, upd_columns = [], upd_condition = None, upd_values = [],
                upd_query = None, upd_connection = con\<rparr>)"

definition Update_reset :: "update_state \<Rightarrow> update_state" where
  "Update_reset s =
     s\<lparr>upd_table := None, upd_columns := [], upd_condition := None, upd_values := [],
       upd_query := None\<rparr>"

text \<open>\<open>this.values[i]\<close>: \<open>undefined\<close> beyond the end of the array.\<close>

definition value_at :: "jsval list \<Rightarrow> nat \<Rightarrow> jsval" where
  "value_at vs i = (if i < length vs then vs ! i else JUndefined)"

text \<open>
  \<open>build\<close> takes the \<open>null\<close> entries out of the sink before it builds the condition: when
  the condition is refused, the sink is left without them.
\<close>

definition Update_build :: "update_state \<Rightarrow> error \<times> update_state + string \<times> update_state" where
  "Update_build s =
     (case upd_table s of
        None \<Rightarrow> Inl (QueryError ''Invalid UPDATE table'', s)
      | Some table \<Rightarrow>
        if table = [] then Inl (QueryError ''Invalid UPDATE table'', s)
        else if upd_columns s = [] then Inl (QueryError ''Invalid UPDATE columns'', s)
        else if upd_values s = [] then Inl (QueryError ''Invalid UPDATE values'', s)
        else
          (case upd_condition s of
             None \<Rightarrow> Inl (QueryError ''UPDATE condition is required'', s)
           | Some cond \<Rightarrow>
               let columns = join '', ''
                     (map (\<lambda>(c, i). if value_at (upd_values s) i = JNull then c @ '' = NULL''
                                     else c @ '' = ?'')
                          (zip (upd_columns s) [0 ..< length (upd_columns s)]));
                   s1 = s\<lparr>upd_values := filter (\<lambda>v. v \<noteq> JNull) (upd_values s)\<rparr>
               in
               (case Condition_build cond of
                  Inl e \<Rightarrow> Inl (e, s1)
                | Inr text \<Rightarrow>
                    Inr (''UPDATE '' @ table @ '' SET '' @ columns @ '' WHERE '' @ text @ '';'', s1))))"

definition Update_set :: "row \<Rightarrow> update_state \<Rightarrow> error + update_state" where
  "Update_set row s =
     (case row of
        NotObj \<Rightarrow> Inl (QueryError ''Invalid UPDATE row'')
      | Obj kvs \<Rightarrow>
          let columns = map fst kvs; values = map snd kvs in
          if \<not> list_all (\<lambda>v. isStr v \<or> isNum v \<or> isNull v) values then
            Inl (QueryError ''Invalid UPDATE value'')
          else Inr (s\<lparr>upd_columns := columns, upd_values := values\<rparr>))"

definition Update_table :: "jsval \<Rightarrow> update_state \<Rightarrow> error + update_state" where
  "Update_table name s =
     (if \<not> isFullStr name then Inl (QueryError ''Invalid UPDATE table'')
      else Inr (s\<lparr>upd_table := Some (str_of name)\<rparr>))"

definition Update_where :: "callback \<Rightarrow> update_state \<Rightarrow> update_state outcome" where
  "Update_where condition s =
     (case condition of
        None \<Rightarrow> Inl (QueryError ''Invalid UPDATE condition'', s)
      | Some f \<Rightarrow>
          (let c = (case upd_condition s of None \<Rightarrow> Condition_new | Some c \<Rightarrow> c) in
           case f (c, upd_values s) of
             Inl (e, (c', vs)) \<Rightarrow> Inl (e, s\<lparr>upd_condition := Some c', upd_values := vs\<rparr>)
           | Inr (c', vs) \<Rightarrow> Inr (s\<lparr>upd_condition := Some c', upd_values := vs\<rparr>)))"

definition Update_and :: "update_state \<Rightarrow> error + update_state" where
  "Update_and s =
     (case upd_condition s of
        None \<Rightarrow> Inl (QueryError ''Invalid UPDATE condition'')
      | Some c \<Rightarrow> Inr (s\<lparr>upd_condition := Some (Condition_and c)\<rparr>))"

definition Update_or :: "update_state \<Rightarrow> error + update_state" where
  "Update_or s =
     (case upd_condition s of
        None \<Rightarrow> Inl (QueryError ''Invalid UPDATE condition'')
      | Some c \<Rightarrow> Inr (s\<lparr>upd_condition := Some (Condition_or c)\<rparr>))"

definition Update_paren :: "update_state \<Rightarrow> update_state" where
  "Update_paren s =
     (let c = (case upd_condition s of None \<Rightarrow> Condition_new | Some c \<Rightarrow> c)
      in s\<lparr>upd_condition := Some (Condition_paren c)\<rparr>)"

definition Update_open :: "update_state \<Rightarrow> update_state" where
  "Update_open s =
     (let c = (case upd_condition s of None \<Rightarrow> Condition_new | Some c \<Rightarrow> c)
      in s\<lparr>upd_condition := Some (Condition_open c)\<rparr>)"

definition Update_close :: "update_state \<Rightarrow> error + update_state" where
  "Update_close s =
     (case upd_condition s of
        None \<Rightarrow> Inl (QueryError ''Invalid UPDATE condition'')
      | Some c \<Rightarrow> Inr (s\<lparr>upd_condition := Some (Condition_close c)\<rparr>))"



section \<open>Delete.ts: the DELETE builder\<close>

record delete_state =
  del_table :: "string option"
  del_condition :: "condition option"
  del_values :: "jsval list"
  del_query :: "string option"
  del_connection :: connection

definition Delete_new :: "connection \<Rightarrow> error + delete_state" where
  "Delete_new con =
     (if \<not> isPoolCon con then Inl (QueryError ''Invalid connection'')
      else Inr \<lparr>del_table = None, del_condition = None, del_values = [], del_query = None,
                del_connection = con\<rparr>)"

definition Delete_reset :: "delete_state \<Rightarrow> delete_state" where
  "Delete_reset s = s\<lparr>del_table := None, del_condition := None, del_values := [], del_query := None\<rparr>"


definition Delete_from :: "jsval \<Rightarrow> delete_state \<Rightarrow> error + delete_state" where
  "Delete_from table s =
     (if \<not> isFullStr table then Inl (QueryError ''Invalid DELETE table'')
      else Inr (s\<lparr>del_table := Some (str_of table)\<rparr>))"

definition Delete_where :: "callback \<Rightarrow> delete_state \<Rightarrow> delete_state outcome" where
  "Delete_where condition s =
     (case condition of
        None \<Rightarrow> Inl (QueryError ''Invalid DELETE condition'', s)
      | Some f \<Rightarrow>
          (let c = (case del_condition s of None \<Rightarrow> Condition_new | Some c \<Rightarrow> c) in
           case f (c, del_values s) of
             Inl (e, (c', vs)) \<Rightarrow> Inl (e, s\<lparr>del_condition := Some c', del_values := vs\<rparr>)
           | Inr (c', vs) \<Rightarrow> Inr (s\<lparr>del_condition := Some c', del_values := vs\<rparr>)))"

definition Delete_and :: "delete_state \<Rightarrow> error + delete_state" where
  "Delete_and s =
     (case del_condition s of
        None \<Rightarrow> Inl (QueryError ''Invalid DELETE condition'')
      | Some c \<Rightarrow> Inr (s\<lparr>del_condition := Some (Condition_and c)\<rparr>))"

definition Delete_or :: "delete_state \<Rightarrow> error + delete_state" where
  "Delete_or s =
     (case del_condition s of
        None \<Rightarrow> Inl (QueryError ''Invalid DELETE condition'')
      | Some c \<Rightarrow> Inr (s\<lparr>del_condition := Some (Condition_or c)\<rparr>))"

definition Delete_paren :: "delete_state \<Rightarrow> delete_state" where
  "Delete_paren s =
     (let c = (case del_condition s of None \<Rightarrow> Condition_new | Some c \<Rightarrow> c)
      in s\<lparr>del_condition := Some (Condition_paren c)\<rparr>)"

definition Delete_open :: "delete_state \<Rightarrow> delete_state" where
  "Delete_open s =
     (let c = (case del_condition s of None \<Rightarrow> Condition_new | Some c \<Rightarrow> c)
      in s\<lparr>del_condition := Some (Condition_open c)\<rparr>)"

definition Delete_close :: "delete_state \<Rightarrow> error + delete_state" where
  "Delete_close s =
     (case del_condition s of
        None \<Rightarrow> Inl (QueryError ''Invalid DELETE condition'')
      | Some c \<Rightarrow> Inr (s\<lparr>del_condition := Some (Condition_close c)\<rparr>))"



section \<open>Chains of method calls\<close>

text \<open>
  A state is reachable through the public methods when a chain of calls leads to it
  from a new object. A call is a value; a callback argument is the chain of calls the
  callback makes on the object it receives (\<open>None\<close>: the argument is not a function).
  Conditions and subqueries nest, so the calls on a condition and the calls on a
  \<open>Select\<close> are defined together. A run of calls stops at the first call that raises
  (\<open>cond_run\<close>, \<open>select_run\<close>: a callback does not catch); \<open>*_caught\<close> further down is
  the run of a caller who catches every throw and goes on with the object.
\<close>

datatype cond_call =
    CCol jsval
  | CRaw jsval "jsval list"
  | CNot | COpen | CClose | CParen | CAnd | COr
  | CInDate operand | CInTime operand | CInYear operand | CInMonth operand
  | CInDay operand | CInHour operand | CInMinute operand | CInSecond operand
  | CEqual operand | CLessThan operand | CLessThanOrEqual operand
  | CGreaterThan operand | CGreaterThanOrEqual operand
  | CBetween operand operand
  | CIn "operand list"
  | CLike operand
  | CIsNull
  | CInSubquery "select_call list option"
  | CExists "select_call list option"
  | CAny "operator option" "select_call list option"
  | CAll "operator option" "select_call list option"
and select_call =
    SFrom jsval
  | SCol "jsval list"
  | SDistinct
  | SOffset jsval
  | SLimit jsval
  | SJoin jsval "cond_call list option"
  | SLeftJoin jsval "cond_call list option"
  | SRightJoin jsval "cond_call list option"
  | SGroupBy "jsval list"
  | SOrderBy jsval order_type
  | SWhere "cond_call list option"
  | SHaving "cond_call list option"
  | SUnion "select_call list option"
  | SUnionAll "select_call list option"
  | SAnd | SOr | SParen | SOpen | SClose
  | SReset

definition then_call :: "error + 'a \<Rightarrow> ('a \<Rightarrow> error + 'b) \<Rightarrow> error + 'b" where
  "then_call r f = (case r of Inl e \<Rightarrow> Inl e | Inr x \<Rightarrow> f x)"

text \<open>A method of the condition that touches neither the sink nor can fail.\<close>

definition on_condition :: "(condition \<Rightarrow> condition) \<Rightarrow> cstate \<Rightarrow> error + cstate" where
  "on_condition f cs = (case cs of (c, vs) \<Rightarrow> Inr (f c, vs))"

text \<open>A method of the condition that does not touch the sink and can fail.\<close>

definition on_condition_result ::
  "(condition \<Rightarrow> error + condition) \<Rightarrow> cstate \<Rightarrow> error + cstate" where
  "on_condition_result f cs =
     (case cs of (c, vs) \<Rightarrow> (case f c of Inl e \<Rightarrow> Inl e | Inr c' \<Rightarrow> Inr (c', vs)))"

fun cond_step :: "connection \<Rightarrow> cond_call \<Rightarrow> cstate \<Rightarrow> cstate outcome"
  and cond_run :: "connection \<Rightarrow> cond_call list \<Rightarrow> cstate \<Rightarrow> cstate outcome"
  and select_step :: "select_call \<Rightarrow> select_state \<Rightarrow> select_state outcome"
  and select_run :: "select_call list \<Rightarrow> select_state \<Rightarrow> select_state outcome"
where
  "cond_step con (CCol name) cs = atomic (on_condition_result (Condition_col name)) cs"
| "cond_step con (CRaw condition values) cs = Condition_raw condition values cs"
| "cond_step con CNot cs = atomic (on_condition Condition_not) cs"
| "cond_step con COpen cs = atomic (on_condition Condition_open) cs"
| "cond_step con CClose cs = atomic (on_condition Condition_close) cs"
| "cond_step con CParen cs = atomic (on_condition Condition_paren) cs"
| "cond_step con CAnd cs = atomic (on_condition Condition_and) cs"
| "cond_step con COr cs = atomic (on_condition Condition_or) cs"
| "cond_step con (CInDate x) cs = atomic (Condition_inDate x) cs"
| "cond_step con (CInTime x) cs = atomic (Condition_inTime con x) cs"
| "cond_step con (CInYear x) cs = atomic (Condition_inYear con x) cs"
| "cond_step con (CInMonth x) cs = atomic (Condition_inMonth con x) cs"
| "cond_step con (CInDay x) cs = atomic (Condition_inDay con x) cs"
| "cond_step con (CInHour x) cs = atomic (Condition_inHour con x) cs"
| "cond_step con (CInMinute x) cs = atomic (Condition_inMinute con x) cs"
| "cond_step con (CInSecond x) cs = atomic (Condition_inSecond con x) cs"
| "cond_step con (CEqual x) cs = atomic (Condition_equal x) cs"
| "cond_step con (CLessThan x) cs = atomic (Condition_lessThan x) cs"
| "cond_step con (CLessThanOrEqual x) cs = atomic (Condition_lessThanOrEqual x) cs"
| "cond_step con (CGreaterThan x) cs = atomic (Condition_greaterThan x) cs"
| "cond_step con (CGreaterThanOrEqual x) cs = atomic (Condition_greaterThanOrEqual x) cs"
| "cond_step con (CBetween x y) cs = atomic (Condition_between x y) cs"
| "cond_step con (CIn xs) cs = atomic (Condition_in xs) cs"
| "cond_step con (CLike x) cs = atomic (Condition_like x) cs"
| "cond_step con CIsNull cs = atomic Condition_isNull cs"
| "cond_step con (CInSubquery None) cs = atomic (Condition_inSubquery con None) cs"
| "cond_step con (CInSubquery (Some calls)) cs =
     atomic (Condition_inSubquery con (Some (\<lambda>s. select_run calls s))) cs"
| "cond_step con (CExists None) cs = atomic (Condition_exists con None) cs"
| "cond_step con (CExists (Some calls)) cs =
     atomic (Condition_exists con (Some (\<lambda>s. select_run calls s))) cs"
| "cond_step con (CAny operator None) cs = atomic (Condition_any con operator None) cs"
| "cond_step con (CAny operator (Some calls)) cs =
     atomic (Condition_any con operator (Some (\<lambda>s. select_run calls s))) cs"
| "cond_step con (CAll operator None) cs = atomic (Condition_all con operator None) cs"
| "cond_step con (CAll operator (Some calls)) cs =
     atomic (Condition_all con operator (Some (\<lambda>s. select_run calls s))) cs"
| "cond_run con [] cs = Inr cs"
| "cond_run con (call # calls) cs =
     (case cond_step con call cs of Inl left \<Rightarrow> Inl left | Inr cs' \<Rightarrow> cond_run con calls cs')"
| "select_step (SFrom name) s = atomic (Select_from name) s"
| "select_step (SCol columns) s = atomic (Select_col columns) s"
| "select_step SDistinct s = Inr (Select_distinct s)"
| "select_step (SOffset v) s = atomic (Select_offset v) s"
| "select_step (SLimit v) s = atomic (Select_limit v) s"
| "select_step (SJoin table None) s = Select_join table None s"
| "select_step (SJoin table (Some calls)) s =
     Select_join table (Some (\<lambda>cs. cond_run (sel_connection s) calls cs)) s"
| "select_step (SLeftJoin table None) s = Select_leftJoin table None s"
| "select_step (SLeftJoin table (Some calls)) s =
     Select_leftJoin table (Some (\<lambda>cs. cond_run (sel_connection s) calls cs)) s"
| "select_step (SRightJoin table None) s = Select_rightJoin table None s"
| "select_step (SRightJoin table (Some calls)) s =
     Select_rightJoin table (Some (\<lambda>cs. cond_run (sel_connection s) calls cs)) s"
| "select_step (SGroupBy columns) s = atomic (Select_groupBy columns) s"
| "select_step (SOrderBy column type) s = atomic (Select_orderBy column type) s"
| "select_step (SWhere None) s = Select_where None s"
| "select_step (SWhere (Some calls)) s =
     Select_where (Some (\<lambda>cs. cond_run (sel_connection s) calls cs)) s"
| "select_step (SHaving None) s = Select_having None s"
| "select_step (SHaving (Some calls)) s =
     Select_having (Some (\<lambda>cs. cond_run (sel_connection s) calls cs)) s"
| "select_step (SUnion None) s = atomic (Select_union None) s"
| "select_step (SUnion (Some calls)) s =
     atomic (Select_union (Some (\<lambda>t. select_run calls t))) s"
| "select_step (SUnionAll None) s = atomic (Select_unionAll None) s"
| "select_step (SUnionAll (Some calls)) s =
     atomic (Select_unionAll (Some (\<lambda>t. select_run calls t))) s"
| "select_step SAnd s = atomic Select_and s"
| "select_step SOr s = atomic Select_or s"
| "select_step SParen s = Inr (Select_paren s)"
| "select_step SOpen s = Inr (Select_open s)"
| "select_step SClose s = atomic Select_close s"
| "select_step SReset s = Inr (Select_reset s)"
| "select_run [] s = Inr s"
| "select_run (call # calls) s =
     (case select_step call s of Inl left \<Rightarrow> Inl left | Inr s' \<Rightarrow> select_run calls s')"

datatype insert_call =
    IInto jsval
  | IReturning "jsval list"
  | IRow row
  | IRows "row list option"
  | IReset

fun insert_step :: "insert_call \<Rightarrow> insert_state \<Rightarrow> insert_state outcome" where
  "insert_step (IInto table) s = atomic (Insert_into table) s"
| "insert_step (IReturning columns) s = atomic (Insert_returning columns) s"
| "insert_step (IRow row) s = Insert_row row s"
| "insert_step (IRows rows) s = Insert_rows rows s"
| "insert_step IReset s = Inr (Insert_reset s)"

fun insert_run :: "insert_call list \<Rightarrow> insert_state \<Rightarrow> insert_state outcome" where
  "insert_run [] s = Inr s"
| "insert_run (call # calls) s =
     (case insert_step call s of Inl left \<Rightarrow> Inl left | Inr s' \<Rightarrow> insert_run calls s')"

datatype update_call =
    UTable jsval
  | USet row
  | UWhere "cond_call list option"
  | UAnd | UOr | UParen | UOpen | UClose
  | UReset

fun update_step :: "update_call \<Rightarrow> update_state \<Rightarrow> update_state outcome" where
  "update_step (UTable name) s = atomic (Update_table name) s"
| "update_step (USet row) s = atomic (Update_set row) s"
| "update_step (UWhere None) s = Update_where None s"
| "update_step (UWhere (Some calls)) s = Update_where (Some (cond_run (upd_connection s) calls)) s"
| "update_step UAnd s = atomic Update_and s"
| "update_step UOr s = atomic Update_or s"
| "update_step UParen s = Inr (Update_paren s)"
| "update_step UOpen s = Inr (Update_open s)"
| "update_step UClose s = atomic Update_close s"
| "update_step UReset s = Inr (Update_reset s)"

fun update_run :: "update_call list \<Rightarrow> update_state \<Rightarrow> update_state outcome" where
  "update_run [] s = Inr s"
| "update_run (call # calls) s =
     (case update_step call s of Inl left \<Rightarrow> Inl left | Inr s' \<Rightarrow> update_run calls s')"

datatype delete_call =
    DFrom jsval
  | DWhere "cond_call list option"
  | DAnd | DOr | DParen | DOpen | DClose
  | DReset

fun delete_step :: "delete_call \<Rightarrow> delete_state \<Rightarrow> delete_state outcome" where
  "delete_step (DFrom table) s = atomic (Delete_from table) s"
| "delete_step (DWhere None) s = Delete_where None s"
| "delete_step (DWhere (Some calls)) s = Delete_where (Some (cond_run (del_connection s) calls)) s"
| "delete_step DAnd s = atomic Delete_and s"
| "delete_step DOr s = atomic Delete_or s"
| "delete_step DParen s = Inr (Delete_paren s)"
| "delete_step DOpen s = Inr (Delete_open s)"
| "delete_step DClose s = atomic Delete_close s"
| "delete_step DReset s = Inr (Delete_reset s)"

fun delete_run :: "delete_call list \<Rightarrow> delete_state \<Rightarrow> delete_state outcome" where
  "delete_run [] s = Inr s"
| "delete_run (call # calls) s =
     (case delete_step call s of Inl left \<Rightarrow> Inl left | Inr s' \<Rightarrow> delete_run calls s')"

text \<open>
  The state a chain of calls leaves a new object in, for a caller who does not catch: the
  first error, or the state when every call has returned. A new \<open>Condition\<close> is taken
  with an owner whose sink is empty.
\<close>

definition Condition_chain :: "connection \<Rightarrow> cond_call list \<Rightarrow> error + cstate" where
  "Condition_chain con calls = uncaught (cond_run con calls (Condition_new, []))"

definition Select_chain :: "connection \<Rightarrow> select_call list \<Rightarrow> error + select_state" where
  "Select_chain con calls = then_call (Select_new con) (\<lambda>s. uncaught (select_run calls s))"

definition Insert_chain :: "connection \<Rightarrow> insert_call list \<Rightarrow> error + insert_state" where
  "Insert_chain con calls = then_call (Insert_new con) (\<lambda>s. uncaught (insert_run calls s))"

definition Update_chain :: "connection \<Rightarrow> update_call list \<Rightarrow> error + update_state" where
  "Update_chain con calls = then_call (Update_new con) (\<lambda>s. uncaught (update_run calls s))"

definition Delete_chain :: "connection \<Rightarrow> delete_call list \<Rightarrow> error + delete_state" where
  "Delete_chain con calls = then_call (Delete_new con) (\<lambda>s. uncaught (delete_run calls s))"

text \<open>
  The state a chain of calls leaves an object in when the caller catches every throw:
  each call is made on the object as the call before has left it, whether that call
  returned or raised. Every state an object can be brought to through its methods is
  the end of such a chain from a new object (the constructor raising leaves no object).
\<close>

fun select_caught :: "select_call list \<Rightarrow> select_state \<Rightarrow> select_state" where
  "select_caught [] s = s"
| "select_caught (call # calls) s = select_caught calls (caught (select_step call s))"

fun insert_caught :: "insert_call list \<Rightarrow> insert_state \<Rightarrow> insert_state" where
  "insert_caught [] s = s"
| "insert_caught (call # calls) s = insert_caught calls (caught (insert_step call s))"

fun update_caught :: "update_call list \<Rightarrow> update_state \<Rightarrow> update_state" where
  "update_caught [] s = s"
| "update_caught (call # calls) s = update_caught calls (caught (update_step call s))"

fun delete_caught :: "delete_call list \<Rightarrow> delete_state \<Rightarrow> delete_state" where
  "delete_caught [] s = s"
| "delete_caught (call # calls) s = delete_caught calls (caught (delete_step call s))"





text \<open>Two calls of \<open>build\<close> in a row: the two texts.\<close>

definition Insert_build_twice :: "insert_state \<Rightarrow> error + string \<times> string" where
  "Insert_build_twice s =
     (case Insert_build s of
        Inl e \<Rightarrow> Inl e
      | Inr (first, s1) \<Rightarrow>
          (case Insert_build s1 of
             Inl e \<Rightarrow> Inl e
           | Inr (second, s2) \<Rightarrow> Inr (first, second)))"

definition Update_build_twice :: "update_state \<Rightarrow> error + string \<times> string" where
  "Update_build_twice s =
     (case Update_build s of
        Inl (e, left) \<Rightarrow> Inl e
      | Inr (first, s1) \<Rightarrow>
          (case Update_build s1 of
             Inl (e, left) \<Rightarrow> Inl e
           | Inr (second, s2) \<Rightarrow> Inr (first, second)))"

text \<open>What a call returned, without the state it left.\<close>

definition returned :: "error + 'a \<times> 's \<Rightarrow> error + 'a" where
  "returned r = (case r of Inl e \<Rightarrow> Inl e | Inr (x, s) \<Rightarrow> Inr x)"


section \<open>Predicates of the statements\<close>

text \<open>
  The fragment the specification assigns to the date part, in its words: \<open>DATE()\<close> for
  MySQL and SQLite, the \<open>::DATE\<close> cast for PostgreSQL.
\<close>

definition claimed_date_fragment :: "driver \<Rightarrow> string \<Rightarrow> string" where
  "claimed_date_fragment d col =
     (case d of
        MySQL \<Rightarrow> ''DATE('' @ col @ '')''
      | PostgreSQL \<Rightarrow> col @ ''::DATE''
      | SQLite \<Rightarrow> ''DATE('' @ col @ '')'')"

text \<open>
  The terminal comparisons are the methods that push a comparison fragment; \<open>col\<close>,
  \<open>raw\<close>, \<open>not\<close>, \<open>open\<close>, \<open>close\<close>, \<open>paren\<close>, \<open>and\<close> and \<open>or\<close> are not.
\<close>

fun is_terminal :: "cond_call \<Rightarrow> bool" where
  "is_terminal (CCol name) = False"
| "is_terminal (CRaw condition values) = False"
| "is_terminal CNot = False"
| "is_terminal COpen = False"
| "is_terminal CClose = False"
| "is_terminal CParen = False"
| "is_terminal CAnd = False"
| "is_terminal COr = False"
| "is_terminal call = True"




text \<open>
  A text is clean when it holds no \<open>?\<close>. A chain of calls is clean when the names it
  passes (tables, columns, references) are clean, every raw fragment holds as many \<open>?\<close>
  as it binds values, and the chains of its callbacks are clean.
\<close>

definition clean :: "string \<Rightarrow> bool" where
  "clean s = (placeholders s = 0)"

fun clean_operand :: "operand \<Rightarrow> bool" where
  "clean_operand (Ref column) = clean column"
| "clean_operand (Val v) = True"

definition clean_name :: "jsval \<Rightarrow> bool" where
  "clean_name v = clean (str_of v)"

text \<open>
  A call of \<open>raw\<close> is clean when it is refused before it has pushed a value, or returns
  and has been given as many values as its fragment holds \<open>?\<close>.
\<close>

definition raw_clean :: "jsval \<Rightarrow> jsval list \<Rightarrow> bool" where
  "raw_clean condition values =
     (if \<not> isFullStr condition then True
      else if list_all (\<lambda>v. isFullStr v \<or> isNum v) values then
        placeholders (str_of condition) = length values
      else takeWhile (\<lambda>v. isFullStr v \<or> isNum v) values = [])"

fun clean_cond_call :: "cond_call \<Rightarrow> bool"
  and clean_cond_calls :: "cond_call list \<Rightarrow> bool"
  and clean_select_call :: "select_call \<Rightarrow> bool"
  and clean_select_calls :: "select_call list \<Rightarrow> bool"
where
  "clean_cond_call (CCol name) = clean_name name"
| "clean_cond_call (CRaw condition values) = raw_clean condition values"
| "clean_cond_call CNot = True"
| "clean_cond_call COpen = True"
| "clean_cond_call CClose = True"
| "clean_cond_call CParen = True"
| "clean_cond_call CAnd = True"
| "clean_cond_call COr = True"
| "clean_cond_call (CInDate x) = clean_operand x"
| "clean_cond_call (CInTime x) = clean_operand x"
| "clean_cond_call (CInYear x) = clean_operand x"
| "clean_cond_call (CInMonth x) = clean_operand x"
| "clean_cond_call (CInDay x) = clean_operand x"
| "clean_cond_call (CInHour x) = clean_operand x"
| "clean_cond_call (CInMinute x) = clean_operand x"
| "clean_cond_call (CInSecond x) = clean_operand x"
| "clean_cond_call (CEqual x) = clean_operand x"
| "clean_cond_call (CLessThan x) = clean_operand x"
| "clean_cond_call (CLessThanOrEqual x) = clean_operand x"
| "clean_cond_call (CGreaterThan x) = clean_operand x"
| "clean_cond_call (CGreaterThanOrEqual x) = clean_operand x"
| "clean_cond_call (CBetween x y) = (clean_operand x \<and> clean_operand y)"
| "clean_cond_call (CIn xs) = list_all clean_operand xs"
| "clean_cond_call (CLike x) = clean_operand x"
| "clean_cond_call CIsNull = True"
| "clean_cond_call (CInSubquery None) = True"
| "clean_cond_call (CInSubquery (Some calls)) = clean_select_calls calls"
| "clean_cond_call (CExists None) = True"
| "clean_cond_call (CExists (Some calls)) = clean_select_calls calls"
| "clean_cond_call (CAny operator None) = True"
| "clean_cond_call (CAny operator (Some calls)) = clean_select_calls calls"
| "clean_cond_call (CAll operator None) = True"
| "clean_cond_call (CAll operator (Some calls)) = clean_select_calls calls"
| "clean_cond_calls [] = True"
| "clean_cond_calls (call # calls) = (clean_cond_call call \<and> clean_cond_calls calls)"
| "clean_select_call (SFrom name) = clean_name name"
| "clean_select_call (SCol columns) = list_all clean_name columns"
| "clean_select_call SDistinct = True"
| "clean_select_call (SOffset v) = True"
| "clean_select_call (SLimit v) = True"
| "clean_select_call (SJoin table None) = True"
| "clean_select_call (SJoin table (Some calls)) = (clean_name table \<and> clean_cond_calls calls)"
| "clean_select_call (SLeftJoin table None) = True"
| "clean_select_call (SLeftJoin table (Some calls)) = (clean_name table \<and> clean_cond_calls calls)"
| "clean_select_call (SRightJoin table None) = True"
| "clean_select_call (SRightJoin table (Some calls)) = (clean_name table \<and> clean_cond_calls calls)"
| "clean_select_call (SGroupBy columns) = list_all clean_name columns"
| "clean_select_call (SOrderBy column type) = clean_name column"
| "clean_select_call (SWhere None) = True"
| "clean_select_call (SWhere (Some calls)) = clean_cond_calls calls"
| "clean_select_call (SHaving None) = True"
| "clean_select_call (SHaving (Some calls)) = clean_cond_calls calls"
| "clean_select_call (SUnion None) = True"
| "clean_select_call (SUnion (Some calls)) = clean_select_calls calls"
| "clean_select_call (SUnionAll None) = True"
| "clean_select_call (SUnionAll (Some calls)) = clean_select_calls calls"
| "clean_select_call SAnd = True"
| "clean_select_call SOr = True"
| "clean_select_call SParen = True"
| "clean_select_call SOpen = True"
| "clean_select_call SClose = True"
| "clean_select_call SReset = True"
| "clean_select_calls [] = True"
| "clean_select_calls (call # calls) = (clean_select_call call \<and> clean_select_calls calls)"

fun clean_row :: "row \<Rightarrow> bool" where
  "clean_row (Obj kvs) = list_all (\<lambda>kv. clean (fst kv)) kvs"
| "clean_row NotObj = True"

fun clean_insert_call :: "insert_call \<Rightarrow> bool" where
  "clean_insert_call (IInto table) = clean_name table"
| "clean_insert_call (IReturning columns) = list_all clean_name columns"
| "clean_insert_call (IRow row) = clean_row row"
| "clean_insert_call (IRows None) = True"
| "clean_insert_call (IRows (Some rows)) = list_all clean_row rows"
| "clean_insert_call IReset = True"




fun clean_delete_call :: "delete_call \<Rightarrow> bool" where
  "clean_delete_call (DFrom table) = clean_name table"
| "clean_delete_call (DWhere None) = True"
| "clean_delete_call (DWhere (Some calls)) = clean_cond_calls calls"
| "clean_delete_call call = True"



text \<open>
  The arguments and the condition a method of the condition accepts, from the checks of
  the source: the call returns exactly when they hold. A subquery is accepted when it
  is a function, runs to its end on a new \<open>Select\<close>, and the \<open>Select\<close> builds.
\<close>

definition subquery_builds :: "connection \<Rightarrow> select_call list option \<Rightarrow> bool" where
  "subquery_builds con sub =
     (case sub of
        None \<Rightarrow> False
      | Some calls \<Rightarrow>
          (case run_subquery con (\<lambda>s. select_run calls s) of
             Inl e \<Rightarrow> False
           | Inr r \<Rightarrow> True))"

fun accepted :: "connection \<Rightarrow> cond_call \<Rightarrow> condition \<Rightarrow> bool" where
  "accepted con (CCol name) c = isFullStr name"
| "accepted con (CRaw condition values) c =
     (isFullStr condition \<and> list_all (\<lambda>v. isFullStr v \<or> isNum v) values)"
| "accepted con CNot c = True"
| "accepted con COpen c = True"
| "accepted con CClose c = True"
| "accepted con CParen c = True"
| "accepted con CAnd c = True"
| "accepted con COr c = True"
| "accepted con (CInDate x) c = (column_ok c \<and> operand_ok isFullStr x)"
| "accepted con (CInTime x) c = (column_ok c \<and> operand_ok isFullStr x \<and> isPoolCon con)"
| "accepted con (CInYear x) c =
     (column_ok c \<and> operand_ok (\<lambda>v. isInt v \<and> num_of v > 0) x \<and> isPoolCon con)"
| "accepted con (CInMonth x) c =
     (column_ok c \<and> operand_ok (\<lambda>v. isInt v \<and> num_of v \<ge> 1 \<and> num_of v \<le> 12) x \<and> isPoolCon con)"
| "accepted con (CInDay x) c =
     (column_ok c \<and> operand_ok (\<lambda>v. isInt v \<and> num_of v \<ge> 1 \<and> num_of v \<le> 31) x \<and> isPoolCon con)"
| "accepted con (CInHour x) c =
     (column_ok c \<and> operand_ok (\<lambda>v. isInt v \<and> num_of v \<ge> 0 \<and> num_of v \<le> 23) x \<and> isPoolCon con)"
| "accepted con (CInMinute x) c =
     (column_ok c \<and> operand_ok (\<lambda>v. isInt v \<and> num_of v \<ge> 0 \<and> num_of v \<le> 59) x \<and> isPoolCon con)"
| "accepted con (CInSecond x) c =
     (column_ok c \<and> operand_ok (\<lambda>v. isInt v \<and> num_of v \<ge> 0 \<and> num_of v \<le> 59) x \<and> isPoolCon con)"
| "accepted con (CEqual x) c = (column_ok c \<and> operand_ok (\<lambda>v. isFullStr v \<or> isNum v) x)"
| "accepted con (CLessThan x) c = (column_ok c \<and> operand_ok (\<lambda>v. isFullStr v \<or> isNum v) x)"
| "accepted con (CLessThanOrEqual x) c =
     (column_ok c \<and> operand_ok (\<lambda>v. isFullStr v \<or> isNum v) x)"
| "accepted con (CGreaterThan x) c = (column_ok c \<and> operand_ok (\<lambda>v. isFullStr v \<or> isNum v) x)"
| "accepted con (CGreaterThanOrEqual x) c =
     (column_ok c \<and> operand_ok (\<lambda>v. isFullStr v \<or> isNum v) x)"
| "accepted con (CBetween x y) c =
     (column_ok c \<and> operand_ok (\<lambda>v. isFullStr v \<or> isNum v) x
        \<and> operand_ok (\<lambda>v. isFullStr v \<or> isNum v) y)"
| "accepted con (CIn xs) c =
     (column_ok c \<and> xs \<noteq> [] \<and> list_all (operand_ok (\<lambda>v. isFullStr v \<or> isNum v)) xs)"
| "accepted con (CLike x) c = (column_ok c \<and> operand_ok isFullStr x)"
| "accepted con CIsNull c = column_ok c"
| "accepted con (CInSubquery sub) c = (column_ok c \<and> subquery_builds con sub)"
| "accepted con (CExists sub) c = subquery_builds con sub"
| "accepted con (CAny operator sub) c =
     (column_ok c \<and> operator \<noteq> None \<and> subquery_builds con sub)"
| "accepted con (CAll operator sub) c =
     (column_ok c \<and> operator \<noteq> None \<and> subquery_builds con sub)"

section \<open>Invariants\<close>

text \<open>
  The number of placeholders a condition holds, and the facts the proofs carry along a
  chain: what one call on a condition does to the stack and to the sink, and when the
  clauses of a statement account for every bound value.
\<close>

definition marks :: "condition \<Rightarrow> nat" where
  "marks c = placeholders (concat (c_stack c))"

definition column_clean :: "condition \<Rightarrow> bool" where
  "column_clean c = (case c_column c of None \<Rightarrow> True | Some name \<Rightarrow> clean name)"

definition step_at :: "(cstate \<Rightarrow> 'e + cstate) \<Rightarrow> cstate \<Rightarrow> bool" where
  "step_at f cs =
     (\<forall>c' vs'. column_clean (fst cs) \<longrightarrow> f cs = Inr (c', vs') \<longrightarrow>
        column_clean c' \<and>
        (\<exists>ws. vs' = snd cs @ ws \<and> JNull \<notin> set ws \<and> marks c' = marks (fst cs) + length ws))"

definition step_ok :: "(cstate \<Rightarrow> 'e + cstate) \<Rightarrow> bool" where
  "step_ok f = (\<forall>cs. step_at f cs)"

definition opt_marks :: "condition option \<Rightarrow> nat" where
  "opt_marks c = (case c of None \<Rightarrow> 0 | Some c \<Rightarrow> marks c)"

definition opt_column_clean :: "condition option \<Rightarrow> bool" where
  "opt_column_clean c = (case c of None \<Rightarrow> True | Some c \<Rightarrow> column_clean c)"

definition balanced :: "select_state \<Rightarrow> bool" where
  "balanced s =
     ((case sel_table s of None \<Rightarrow> True | Some t \<Rightarrow> clean t) \<and>
      (case sel_columns s of None \<Rightarrow> True | Some cs \<Rightarrow> list_all clean cs) \<and>
      list_all (\<lambda>(column, type). clean column \<and> clean type) (sel_order s) \<and>
      list_all clean (sel_group s) \<and>
      list_all (\<lambda>j. clean (j_table j) \<and> clean (j_type j)) (sel_joins s) \<and>
      opt_column_clean (sel_where s) \<and>
      opt_column_clean (sel_having s) \<and>
      sel_query s = None \<and>
      JNull \<notin> set (sel_values s) \<and>
      sum_list (map (\<lambda>j. marks (j_condition j)) (sel_joins s)) + opt_marks (sel_where s)
        + opt_marks (sel_having s) + sum_list (map (\<lambda>(query, all). placeholders query) (sel_unions s))
        = length (sel_values s))"

definition sub_ok :: "connection \<Rightarrow> (select_state \<Rightarrow> select_state outcome) \<Rightarrow> bool" where
  "sub_ok con f =
     (\<forall>query values. run_subquery con f = Inr (query, values) \<longrightarrow>
        placeholders query = length values \<and> JNull \<notin> set values)"

definition keeps_balanced :: "(select_state \<Rightarrow> 'e + select_state) \<Rightarrow> bool" where
  "keeps_balanced f = (\<forall>s s'. balanced s \<longrightarrow> f s = Inr s' \<longrightarrow> balanced s')"

definition insert_ok :: "insert_state \<Rightarrow> bool" where
  "insert_ok s =
     ((case ins_table s of None \<Rightarrow> True | Some t \<Rightarrow> clean t) \<and>
      (case ins_columns s of None \<Rightarrow> True | Some cs \<Rightarrow> list_all clean cs) \<and>
      (case ins_returnings s of None \<Rightarrow> True | Some rs \<Rightarrow> list_all clean rs) \<and>
      ins_query s = None)"

definition delete_ok :: "delete_state \<Rightarrow> bool" where
  "delete_ok s =
     ((case del_table s of None \<Rightarrow> True | Some t \<Rightarrow> clean t) \<and>
      opt_column_clean (del_condition s) \<and>
      del_query s = None \<and>
      opt_marks (del_condition s) = length (del_values s))"


definition consumes_flag :: "(cstate \<Rightarrow> 'e + cstate) \<Rightarrow> bool" where
  "consumes_flag m =
     (\<forall>c vs c' vs'. m (c, vs) = Inr (c', vs') \<longrightarrow>
        \<not> c_negate c' \<and>
        (\<exists>fragment.
           c_stack c' = c_stack c @ [(if c_negate c then ''NOT '' else []) @ fragment] \<and>
           m (c\<lparr>c_negate := False\<rparr>, vs) = Inr (c'\<lparr>c_stack := c_stack c @ [fragment]\<rparr>, vs')))"

section \<open>Outcomes\<close>

lemma atomic_Inr [simp]: "atomic f s = Inr s' \<longleftrightarrow> f s = Inr s'"
  by (simp add: atomic_def split: sum.splits)

lemma atomic_Inl [simp]: "atomic f s = Inl (e, s') \<longleftrightarrow> f s = Inl e \<and> s' = s"
  by (auto simp: atomic_def split: sum.splits)

lemma atomic_left: "atomic f s = Inl left \<Longrightarrow> snd left = s"
  by (cases left) simp

lemma uncaught_Inr [simp]: "uncaught r = Inr s \<longleftrightarrow> r = Inr s"
  by (auto simp: uncaught_def split: sum.splits)

lemma caught_simps [simp]: "caught (Inr s) = s" "caught (Inl (e, s)) = s"
  by (simp_all add: caught_def)


lemma step_at_atomic [simp]: "step_at (atomic f) cs = step_at f cs"
  by (simp add: step_at_def)

lemma consumes_flag_atomic [simp]: "consumes_flag (atomic f) = consumes_flag f"
  by (simp add: consumes_flag_def)

section \<open>Counting placeholders\<close>

lemma placeholders_Nil [simp]: "placeholders [] = 0"
  by (simp add: placeholders_def)

lemma placeholders_Cons [simp]:
  "placeholders (x # xs) = (if x = CHR ''?'' then Suc (placeholders xs) else placeholders xs)"
  by (simp add: placeholders_def)

lemma placeholders_append [simp]: "placeholders (a @ b) = placeholders a + placeholders b"
  by (induction a) simp_all

lemma placeholders_rev [simp]: "placeholders (rev s) = placeholders s"
  by (induction s) simp_all

lemma placeholders_concat: "placeholders (concat xs) = sum_list (map placeholders xs)"
  by (induction xs) simp_all

lemma placeholders_dropWhile_space [simp]:
  "placeholders (dropWhile is_space s) = placeholders s"
  by (induction s) (simp_all add: is_space_def)

lemma placeholders_trim [simp]: "placeholders (trim s) = placeholders s"
  by (simp add: trim_def)

lemma placeholders_join:
  "placeholders sep = 0 \<Longrightarrow> placeholders (join sep xs) = sum_list (map placeholders xs)"
  by (induction sep xs rule: join.induct) simp_all

lemma digit_char_clean: "d < 10 \<Longrightarrow> digit_char d \<noteq> CHR ''?''"
proof -
  assume "d < 10"
  then have "digit_char d \<in> set ''0123456789''"
    unfolding digit_char_def by (intro nth_mem) simp
  then show ?thesis by auto
qed

lemma placeholders_string_of_nat [simp]: "placeholders (string_of_nat n) = 0"
proof (induction n rule: string_of_nat.induct)
  case (1 n)
  show ?case
  proof (cases "n < 10")
    case True
    then show ?thesis by (subst string_of_nat.simps) (simp add: digit_char_clean)
  next
    case False
    then show ?thesis
      using "1" by (subst string_of_nat.simps) (simp add: digit_char_clean)
  qed
qed

lemma Condition_build_marks:
  "Condition_build c = Inr text \<Longrightarrow> placeholders text = marks c"
  by (auto simp: Condition_build_def Let_def marks_def split: if_splits)

lemma clean_append [simp]: "clean (a @ b) \<longleftrightarrow> clean a \<and> clean b"
  by (simp add: clean_def)

lemma clean_Nil [simp]: "clean []"
  by (simp add: clean_def)

lemma sum_list_placeholders_clean:
  "list_all clean xs \<Longrightarrow> sum_list (map placeholders xs) = 0"
  by (induction xs) (simp_all add: clean_def)

lemma join_clean: "clean sep \<Longrightarrow> list_all clean xs \<Longrightarrow> clean (join sep xs)"
  by (simp add: clean_def placeholders_join sum_list_placeholders_clean)

lemma build_joins_marks:
  "build_joins js = Inr texts \<Longrightarrow> list_all (\<lambda>j. clean (j_table j) \<and> clean (j_type j)) js \<Longrightarrow>
     sum_list (map placeholders texts) = sum_list (map (\<lambda>j. marks (j_condition j)) js)"
proof (induction js arbitrary: texts)
  case Nil
  then show ?case by simp
next
  case (Cons j js)
  then show ?case
    by (auto simp: clean_def Condition_build_marks split: sum.splits)
qed

lemma build_joins_length: "build_joins js = Inr texts \<Longrightarrow> length texts = length js"
  by (induction js arbitrary: texts) (auto split: sum.splits)

lemma build_clause_marks:
  "build_clause keyword c = Inr text \<Longrightarrow> clean keyword \<Longrightarrow> placeholders text = opt_marks c"
  by (auto simp: build_clause_def opt_marks_def clean_def Condition_build_marks
      split: option.splits sum.splits)

lemma order_clean:
  "list_all (\<lambda>(column, type). clean column \<and> clean type) xs \<Longrightarrow>
     list_all clean (map (\<lambda>(column, type). column @ '' '' @ type) xs)"
  by (induction xs) (auto simp: clean_def)

lemma unions_marks:
  "sum_list (map placeholders
       (map (\<lambda>(query, all). (if all then ''UNION ALL'' else ''UNION'') @ '' '' @ query) us))
     = sum_list (map (\<lambda>(query, all). placeholders query) us)"
  by (induction us) auto

lemma Select_build_balanced:
  assumes "balanced s" and "Select_build b s = Inr q"
  shows "placeholders q = length (sel_values s)"
proof -
  from assms(2) obtain t joins w h where t: "sel_table s = Some t"
    and joins: "build_joins (sel_joins s) = Inr joins"
    and w: "build_clause '' WHERE '' (sel_where s) = Inr w"
    and h: "build_clause '' HAVING '' (sel_having s) = Inr h"
    by (auto simp: Select_build_def Let_def split: option.splits sum.splits if_splits)
  define dpart where "dpart = (if sel_distinct s then ''DISTINCT '' else [])"
  define cpart where "cpart = (case sel_columns s of Some cs \<Rightarrow> join '', '' cs | None \<Rightarrow> ''*'')"
  define jpart where "jpart = (if sel_joins s \<noteq> [] then '' '' @ join '' '' joins else [])"
  define gpart where "gpart = (if sel_group s \<noteq> [] then '' GROUP BY '' @ join '', '' (sel_group s) else [])"
  define opart where "opart = (if sel_order s \<noteq> []
      then '' ORDER BY '' @ join '', '' (map (\<lambda>(column, type). column @ '' '' @ type) (sel_order s))
      else [])"
  define lpart where "lpart = (case sel_limit s of Some n \<Rightarrow> '' LIMIT '' @ string_of_nat n | None \<Rightarrow> [])"
  define fpart where "fpart = (case sel_offset s of Some n \<Rightarrow> '' OFFSET '' @ string_of_nat n | None \<Rightarrow> [])"
  define upart where "upart = (if sel_unions s \<noteq> []
      then '' '' @ join '' ''
             (map (\<lambda>(query, all). (if all then ''UNION ALL'' else ''UNION'') @ '' '' @ query)
                  (sel_unions s))
      else [])"
  define epart where "epart = (if b then [] else '';'')"
  have q: "q = ''SELECT '' @ dpart @ cpart @ '' FROM '' @ t @ jpart @ w @ gpart @ h @ opart
                @ lpart @ fpart @ upart @ epart"
    using assms(2) t joins w h
    unfolding Select_build_def Let_def dpart_def cpart_def jpart_def gpart_def opart_def
      lpart_def fpart_def upart_def epart_def
    by (simp split: if_splits)
  have pt: "placeholders t = 0"
    using assms(1) t by (simp add: balanced_def clean_def)
  have pd: "placeholders dpart = 0" by (simp add: dpart_def)
  have pe: "placeholders epart = 0" by (simp add: epart_def)
  have pc: "placeholders cpart = 0"
    using assms(1) join_clean [of "'', ''"]
    by (auto simp: cpart_def balanced_def clean_def split: option.splits)
  have pj: "placeholders jpart = sum_list (map (\<lambda>j. marks (j_condition j)) (sel_joins s))"
    using assms(1) build_joins_marks [OF joins]
    by (simp add: jpart_def placeholders_join balanced_def)
  have pw: "placeholders w = opt_marks (sel_where s)"
    using build_clause_marks [OF w] by (simp add: clean_def)
  have ph: "placeholders h = opt_marks (sel_having s)"
    using build_clause_marks [OF h] by (simp add: clean_def)
  have pg: "placeholders gpart = 0"
    using assms(1) join_clean [of "'', ''" "sel_group s"]
    by (simp add: gpart_def balanced_def clean_def)
  have po: "placeholders opart = 0"
    using assms(1) join_clean [of "'', ''", OF _ order_clean [of "sel_order s"]]
    by (simp add: opart_def balanced_def clean_def)
  have pl: "placeholders lpart = 0" by (simp add: lpart_def split: option.splits)
  have pf: "placeholders fpart = 0" by (simp add: fpart_def split: option.splits)
  have pu: "placeholders upart = sum_list (map (\<lambda>(query, all). placeholders query) (sel_unions s))"
    using placeholders_join [of "'' ''"
        "map (\<lambda>(query, all). (if all then ''UNION ALL'' else ''UNION'') @ '' '' @ query) (sel_unions s)"]
      unions_marks [of "sel_unions s"]
    by (simp add: upart_def)
  have total: "sum_list (map (\<lambda>j. marks (j_condition j)) (sel_joins s)) + opt_marks (sel_where s)
        + opt_marks (sel_having s) + sum_list (map (\<lambda>(query, all). placeholders query) (sel_unions s))
        = length (sel_values s)"
    using assms(1) by (simp add: balanced_def)
  have "placeholders q = placeholders jpart + placeholders w + placeholders h + placeholders upart"
    unfolding q by (simp add: pt pd pe pc pg po pl pf)
  then show ?thesis using total pj pw ph pu by simp
qed

section \<open>One call on a condition\<close>

lemma step_atI:
  assumes "\<And>c vs c' vs'. cs = (c, vs) \<Longrightarrow> column_clean c \<Longrightarrow> f (c, vs) = Inr (c', vs') \<Longrightarrow>
     column_clean c' \<and> (\<exists>ws. vs' = vs @ ws \<and> JNull \<notin> set ws \<and> marks c' = marks c + length ws)"
  shows "step_at f cs"
  using assms by (cases cs) (auto simp: step_at_def)

lemma marks_push_fragment [simp]:
  "marks (push_fragment text c) = marks c + placeholders text"
  by (simp add: marks_def push_fragment_def)

lemma column_clean_push_fragment [simp]:
  "column_clean (push_fragment text c) = column_clean c"
  by (simp add: column_clean_def push_fragment_def)

lemma clean_the_column: "column_clean c \<Longrightarrow> placeholders (the_column c) = 0"
  by (auto simp: column_clean_def the_column_def clean_def split: option.splits)

lemma placeholders_not_text [simp]: "placeholders (not_text c) = 0"
  by (simp add: not_text_def)

lemma placeholders_placeholder:
  "clean_operand x \<Longrightarrow> placeholders (placeholder x) = length (push_operand x [])"
  by (cases x) (simp_all add: clean_def)

lemma push_operand_eq: "push_operand x vs = vs @ push_operand x []"
  by (cases x) simp_all

lemma push_operand_no_null:
  "operand_ok valid x \<Longrightarrow> \<not> valid JNull \<Longrightarrow> JNull \<notin> set (push_operand x [])"
  by (cases x) auto

lemma comparison_step:
  assumes "clean_operand x" and "\<not> valid JNull" and "clean sign"
    and "\<And>column l. clean column \<Longrightarrow> lhs column = Inr l \<Longrightarrow> clean l"
  shows "step_at (comparison valid msg lhs sign x) cs"
proof (rule step_atI)
  fix c vs c' vs'
  assume cc: "column_clean c" and run: "comparison valid msg lhs sign x (c, vs) = Inr (c', vs')"
  from run obtain l where ok: "operand_ok valid x" and l: "lhs (the_column c) = Inr l"
    and c': "c' = push_fragment (not_text c @ l @ sign @ placeholder x) c"
    and vs': "vs' = push_operand x vs"
    by (auto simp: comparison_def split: if_splits sum.splits)
  have "clean (the_column c)" using clean_the_column [OF cc] by (simp add: clean_def)
  from assms(4) [OF this l] have pl: "placeholders l = 0" by (simp add: clean_def)
  have "marks c' = marks c + length (push_operand x [])"
    using c' pl assms(3) placeholders_placeholder [OF assms(1)] by (simp add: clean_def)
  moreover have "vs' = vs @ push_operand x []" using vs' push_operand_eq [of x vs] by simp
  moreover have "JNull \<notin> set (push_operand x [])"
    using push_operand_no_null [OF ok assms(2)] .
  moreover have "column_clean c'" using c' cc by simp
  ultimately show "column_clean c' \<and>
      (\<exists>ws. vs' = vs @ ws \<and> JNull \<notin> set ws \<and> marks c' = marks c + length ws)"
    by blast
qed

lemma ex_clean:
  "exDate (JStr column) = Inr l \<Longrightarrow> clean column \<Longrightarrow> clean l"
  "exTime (JStr column) con = Inr l \<Longrightarrow> clean column \<Longrightarrow> clean l"
  "exYear (JStr column) con = Inr l \<Longrightarrow> clean column \<Longrightarrow> clean l"
  "exMonth (JStr column) con = Inr l \<Longrightarrow> clean column \<Longrightarrow> clean l"
  "exDay (JStr column) con = Inr l \<Longrightarrow> clean column \<Longrightarrow> clean l"
  "exHour (JStr column) con = Inr l \<Longrightarrow> clean column \<Longrightarrow> clean l"
  "exMinute (JStr column) con = Inr l \<Longrightarrow> clean column \<Longrightarrow> clean l"
  "exSecond (JStr column) con = Inr l \<Longrightarrow> clean column \<Longrightarrow> clean l"
  by (auto simp: exDate_def exTime_def exYear_def exMonth_def exDay_def exHour_def
      exMinute_def exSecond_def clean_def split: if_splits)

lemma fold_push_operand_eq: "fold push_operand xs vs = vs @ fold push_operand xs []"
proof (induction xs arbitrary: vs)
  case Nil
  show ?case by simp
next
  case (Cons x xs)
  show ?case
    using Cons.IH [of "push_operand x vs"] Cons.IH [of "push_operand x []"] push_operand_eq [of x vs]
    by simp
qed

lemma in_marks:
  "list_all clean_operand xs \<Longrightarrow>
     sum_list (map placeholders (map placeholder xs)) = length (fold push_operand xs [])"
proof (induction xs)
  case Nil
  show ?case by simp
next
  case (Cons x xs)
  then show ?case
    using fold_push_operand_eq [of xs "push_operand x []"] placeholders_placeholder [of x]
    by simp
qed

lemma in_no_null:
  "list_all (operand_ok valid) xs \<Longrightarrow> \<not> valid JNull \<Longrightarrow> JNull \<notin> set (fold push_operand xs [])"
proof (induction xs)
  case Nil
  show ?case by simp
next
  case (Cons x xs)
  then show ?case
    using fold_push_operand_eq [of xs "push_operand x []"] push_operand_no_null [of valid x]
    by auto
qed

lemma between_step:
  assumes "clean_operand x" and "clean_operand y"
  shows "step_at (Condition_between x y) cs"
proof (rule step_atI)
  fix c vs c' vs'
  assume cc: "column_clean c" and run: "Condition_between x y (c, vs) = Inr (c', vs')"
  let ?valid = "\<lambda>v. isFullStr v \<or> isNum v"
  from run have okx: "operand_ok ?valid x" and oky: "operand_ok ?valid y"
    and c': "c' = push_fragment (not_text c @ the_column c @ '' BETWEEN '' @ placeholder x
              @ '' AND '' @ placeholder y) c"
    and vs': "vs' = push_operand y (push_operand x vs)"
    by (auto simp: Condition_between_def split: if_splits)
  let ?ws = "push_operand x [] @ push_operand y []"
  have "vs' = vs @ ?ws"
    using vs' push_operand_eq [of y "push_operand x vs"] push_operand_eq [of x vs] by simp
  moreover have "JNull \<notin> set ?ws"
    using push_operand_no_null [OF okx] push_operand_no_null [OF oky] by simp
  moreover have "marks c' = marks c + length ?ws"
    using c' clean_the_column [OF cc] placeholders_placeholder [OF assms(1)]
      placeholders_placeholder [OF assms(2)] by simp
  moreover have "column_clean c'" using c' cc by simp
  ultimately show "column_clean c' \<and>
      (\<exists>ws. vs' = vs @ ws \<and> JNull \<notin> set ws \<and> marks c' = marks c + length ws)"
    by blast
qed

lemma in_step:
  assumes "list_all clean_operand xs"
  shows "step_at (Condition_in xs) cs"
proof (rule step_atI)
  fix c vs c' vs'
  assume cc: "column_clean c" and run: "Condition_in xs (c, vs) = Inr (c', vs')"
  let ?valid = "\<lambda>v. isFullStr v \<or> isNum v"
  from run have ok: "list_all (operand_ok ?valid) xs"
    and c': "c' = push_fragment (not_text c @ the_column c @ '' IN (''
              @ join '', '' (map placeholder xs) @ '')'') c"
    and vs': "vs' = fold push_operand xs vs"
    by (auto simp: Condition_in_def split: if_splits)
  let ?ws = "fold push_operand xs []"
  have "vs' = vs @ ?ws" using vs' fold_push_operand_eq [of xs vs] by simp
  moreover have "JNull \<notin> set ?ws" using in_no_null [OF ok] by simp
  moreover have "marks c' = marks c + length ?ws"
    using c' clean_the_column [OF cc] in_marks [OF assms]
    by (simp add: placeholders_join)
  moreover have "column_clean c'" using c' cc by simp
  ultimately show "column_clean c' \<and>
      (\<exists>ws. vs' = vs @ ws \<and> JNull \<notin> set ws \<and> marks c' = marks c + length ws)"
    by blast
qed

lemma isNull_step: "step_at Condition_isNull cs"
proof (rule step_atI)
  fix c vs c' vs'
  assume cc: "column_clean c" and run: "Condition_isNull (c, vs) = Inr (c', vs')"
  from run have c': "c' = push_fragment (not_text c @ the_column c @ '' IS NULL'') c"
    and vs': "vs' = vs"
    by (auto simp: Condition_isNull_def split: if_splits)
  have "marks c' = marks c + length ([] :: jsval list)"
    using c' clean_the_column [OF cc] by simp
  then show "column_clean c' \<and>
      (\<exists>ws. vs' = vs @ ws \<and> JNull \<notin> set ws \<and> marks c' = marks c + length ws)"
    using vs' c' cc by (intro conjI exI [of _ "[]"]) simp_all
qed

lemma raw_step:
  assumes "raw_clean condition values"
  shows "step_at (Condition_raw condition values) cs"
proof (rule step_atI)
  fix c vs c' vs'
  assume cc: "column_clean c" and run: "Condition_raw condition values (c, vs) = Inr (c', vs')"
  from run have full: "isFullStr condition"
    and ok: "list_all (\<lambda>v. isFullStr v \<or> isNum v) values"
    and c': "c' = c\<lparr>c_stack := c_stack c @ [str_of condition]\<rparr>"
    and vs': "vs' = vs @ values"
    by (auto simp: Condition_raw_def split: if_splits)
  from assms full ok have count: "placeholders (str_of condition) = length values"
    by (simp add: raw_clean_def)
  have "JNull \<notin> set values" using ok by (auto simp: list_all_iff)
  moreover have "marks c' = marks c + length values"
    using c' count by (simp add: marks_def)
  moreover have "column_clean c'" using c' cc by (simp add: column_clean_def)
  ultimately show "column_clean c' \<and>
      (\<exists>ws. vs' = vs @ ws \<and> JNull \<notin> set ws \<and> marks c' = marks c + length ws)"
    using vs' by blast
qed

lemma on_condition_step:
  assumes "\<And>c. marks (f c) = marks c" and "\<And>c. c_column (f c) = c_column c"
  shows "step_at (on_condition f) cs"
proof (rule step_atI)
  fix c vs c' vs'
  assume cc: "column_clean c" and run: "on_condition f (c, vs) = Inr (c', vs')"
  from run have "c' = f c" and "vs' = vs" by (auto simp: on_condition_def)
  then show "column_clean c' \<and>
      (\<exists>ws. vs' = vs @ ws \<and> JNull \<notin> set ws \<and> marks c' = marks c + length ws)"
    using cc assms by (intro conjI exI [of _ "[]"]) (simp_all add: column_clean_def)
qed

lemma col_step:
  assumes "clean_name name"
  shows "step_at (on_condition_result (Condition_col name)) cs"
proof (rule step_atI)
  fix c vs c' vs'
  assume "on_condition_result (Condition_col name) (c, vs) = Inr (c', vs')"
  then have "c' = c\<lparr>c_column := Some (str_of name)\<rparr>" and "vs' = vs"
    by (auto simp: on_condition_result_def Condition_col_def split: if_splits sum.splits)
  then show "column_clean c' \<and>
      (\<exists>ws. vs' = vs @ ws \<and> JNull \<notin> set ws \<and> marks c' = marks c + length ws)"
    using assms
    by (intro conjI exI [of _ "[]"]) (simp_all add: column_clean_def clean_name_def marks_def)
qed

lemma subquery_step:
  fixes m :: "cstate \<Rightarrow> error + cstate"
  assumes "sub_ok con f" and "clean pre" and "clean post"
    and run: "\<And>c vs c' vs'. m (c, vs) = Inr (c', vs') \<Longrightarrow>
      \<exists>query values. run_subquery con f = Inr (query, values) \<and>
        c' = push_fragment (not_text c @ (if with_column then the_column c else []) @ pre @ query @ post) c \<and>
        vs' = vs @ values"
  shows "step_at m cs"
proof (rule step_atI)
  fix c vs c' vs'
  assume cc: "column_clean c" and m: "m (c, vs) = Inr (c', vs')"
  from run [OF m] obtain query vals where
    sub: "run_subquery con f = Inr (query, vals)"
    and c': "c' = push_fragment (not_text c @ (if with_column then the_column c else []) @ pre @ query @ post) c"
    and vs': "vs' = vs @ vals"
    by blast
  from assms(1) sub have q: "placeholders query = length vals" and nn: "JNull \<notin> set vals"
    by (auto simp: sub_ok_def)
  have "marks c' = marks c + length vals"
    using c' q assms(2,3) clean_the_column [OF cc] by (simp add: clean_def)
  moreover have "column_clean c'" using c' cc by simp
  ultimately show "column_clean c' \<and>
      (\<exists>ws. vs' = vs @ ws \<and> JNull \<notin> set ws \<and> marks c' = marks c + length ws)"
    using vs' nn by blast
qed

lemma never_step:
  fixes m :: "cstate \<Rightarrow> error + cstate"
  assumes "\<And>c vs. \<exists>e. m (c, vs) = Inl e"
  shows "step_at m cs"
proof (rule step_atI)
  fix c vs c' vs'
  assume "m (c, vs) = Inr (c', vs')"
  with assms [of c vs] show "column_clean c' \<and>
      (\<exists>ws. vs' = vs @ ws \<and> JNull \<notin> set ws \<and> marks c' = marks c + length ws)"
    by auto
qed

lemma inSubquery_step:
  assumes "case sub of None \<Rightarrow> True | Some f \<Rightarrow> sub_ok con f"
  shows "step_at (Condition_inSubquery con sub) cs"
proof (cases sub)
  case None
  then show ?thesis by (intro never_step) (simp add: Condition_inSubquery_def)
next
  case (Some f)
  show ?thesis
    by (rule subquery_step [where f = f and con = con and pre = "'' IN (''" and post = "'')''"
          and with_column = True])
      (use assms Some in \<open>auto simp: clean_def Condition_inSubquery_def
          split: if_splits sum.splits prod.splits\<close>)
qed

lemma exists_step:
  assumes "case sub of None \<Rightarrow> True | Some f \<Rightarrow> sub_ok con f"
  shows "step_at (Condition_exists con sub) cs"
proof (cases sub)
  case None
  then show ?thesis by (intro never_step) (simp add: Condition_exists_def)
next
  case (Some f)
  show ?thesis
    by (rule subquery_step [where f = f and con = con and pre = "''EXISTS (''" and post = "'')''"
          and with_column = False])
      (use assms Some in \<open>auto simp: clean_def Condition_exists_def
          split: if_splits sum.splits prod.splits\<close>)
qed

lemma description_clean: "clean (description op)"
  by (cases op) (simp_all add: clean_def)

lemma quantified_step:
  assumes "case sub of None \<Rightarrow> True | Some f \<Rightarrow> sub_ok con f" and "clean word"
  shows "step_at (quantified word con operator sub) cs"
proof (cases "sub = None \<or> operator = None")
  case True
  then show ?thesis
    by (intro never_step) (auto simp: quantified_def split: option.splits)
next
  case False
  then obtain f op where sub: "sub = Some f" and op: "operator = Some op" by auto
  show ?thesis
    by (rule subquery_step [where f = f and con = con
          and pre = "'' '' @ description op @ word" and post = "'')''" and with_column = True])
      (use assms sub op description_clean [of op] in \<open>auto simp: clean_def quantified_def
          split: if_splits sum.splits prod.splits\<close>)
qed

lemma valid_not_null:
  "\<not> isFullStr JNull" "\<not> (isFullStr JNull \<or> isNum JNull)" "\<not> (isInt JNull \<and> P)"
  by simp_all

lemma method_steps:
  "clean_operand x \<Longrightarrow> step_at (Condition_inDate x) cs"
  "clean_operand x \<Longrightarrow> step_at (Condition_inTime con x) cs"
  "clean_operand x \<Longrightarrow> step_at (Condition_inYear con x) cs"
  "clean_operand x \<Longrightarrow> step_at (Condition_inMonth con x) cs"
  "clean_operand x \<Longrightarrow> step_at (Condition_inDay con x) cs"
  "clean_operand x \<Longrightarrow> step_at (Condition_inHour con x) cs"
  "clean_operand x \<Longrightarrow> step_at (Condition_inMinute con x) cs"
  "clean_operand x \<Longrightarrow> step_at (Condition_inSecond con x) cs"
  "clean_operand x \<Longrightarrow> step_at (Condition_equal x) cs"
  "clean_operand x \<Longrightarrow> step_at (Condition_lessThan x) cs"
  "clean_operand x \<Longrightarrow> step_at (Condition_lessThanOrEqual x) cs"
  "clean_operand x \<Longrightarrow> step_at (Condition_greaterThan x) cs"
  "clean_operand x \<Longrightarrow> step_at (Condition_greaterThanOrEqual x) cs"
  "clean_operand x \<Longrightarrow> step_at (Condition_like x) cs"
  unfolding Condition_inDate_def Condition_inTime_def
      Condition_inYear_def Condition_inMonth_def Condition_inDay_def Condition_inHour_def
      Condition_inMinute_def Condition_inSecond_def Condition_equal_def Condition_lessThan_def
      Condition_lessThanOrEqual_def Condition_greaterThan_def Condition_greaterThanOrEqual_def
      Condition_like_def
  by (rule comparison_step; (simp add: clean_def; fail | erule (1) ex_clean))+

lemma step_at_bind:
  assumes "step_at f cs" and "\<And>cs'. f cs = Inr cs' \<Longrightarrow> step_at g cs'"
  shows "step_at (\<lambda>x. case f x of Inl e \<Rightarrow> Inl e | Inr y \<Rightarrow> g y) cs"
proof (rule step_atI)
  fix c vs c' vs'
  assume cs: "cs = (c, vs)" and cc: "column_clean c"
    and run: "(case f (c, vs) of Inl e \<Rightarrow> Inl e | Inr y \<Rightarrow> g y) = Inr (c', vs')"
  from run obtain c1 vs1 where f: "f (c, vs) = Inr (c1, vs1)" and g: "g (c1, vs1) = Inr (c', vs')"
    by (auto split: sum.splits)
  from assms(1) cs cc f obtain ws1 where 1: "column_clean c1" "vs1 = vs @ ws1" "JNull \<notin> set ws1"
    "marks c1 = marks c + length ws1"
    by (auto simp: step_at_def)
  from assms(2) [of "(c1, vs1)"] cs f 1(1) g obtain ws2 where 2: "column_clean c'"
    "vs' = vs1 @ ws2" "JNull \<notin> set ws2" "marks c' = marks c1 + length ws2"
    by (auto simp: step_at_def)
  show "column_clean c' \<and>
      (\<exists>ws. vs' = vs @ ws \<and> JNull \<notin> set ws \<and> marks c' = marks c + length ws)"
    using 1 2 by (intro conjI exI [of _ "ws1 @ ws2"]) simp_all
qed

lemma step_at_return: "step_at Inr cs"
  by (rule step_atI) (auto intro: exI [of _ "[]"])

section \<open>The methods of a SELECT keep the balance\<close>

lemma step_okD:
  assumes "step_ok f" and "column_clean c" and "f (c, vs) = Inr (c', vs')"
  shows "column_clean c'"
    and "\<exists>ws. vs' = vs @ ws \<and> JNull \<notin> set ws \<and> marks c' = marks c + length ws"
  using assms by (auto simp: step_ok_def step_at_def)

lemma marks_Condition_new [simp]: "marks Condition_new = 0"
  by (simp add: marks_def Condition_new_def)

lemma column_clean_Condition_new [simp]: "column_clean Condition_new"
  by (simp add: column_clean_def Condition_new_def)

lemma token_simps [simp]:
  "marks (Condition_and c) = marks c"
  "marks (Condition_or c) = marks c"
  "marks (Condition_open c) = marks c"
  "marks (Condition_close c) = marks c"
  "marks (Condition_paren c) = marks c"
  "marks (Condition_not c) = marks c"
  "c_column (Condition_and c) = c_column c"
  "c_column (Condition_or c) = c_column c"
  "c_column (Condition_open c) = c_column c"
  "c_column (Condition_close c) = c_column c"
  "c_column (Condition_paren c) = c_column c"
  "c_column (Condition_not c) = c_column c"
  by (simp_all add: marks_def Condition_and_def Condition_or_def Condition_open_def
      Condition_close_def Condition_paren_def Condition_not_def)

lemma token_column_clean [simp]:
  "column_clean (Condition_and c) = column_clean c"
  "column_clean (Condition_or c) = column_clean c"
  "column_clean (Condition_open c) = column_clean c"
  "column_clean (Condition_close c) = column_clean c"
  "column_clean (Condition_paren c) = column_clean c"
  by (simp_all add: column_clean_def)

lemma token_steps:
  "step_at (on_condition Condition_not) cs"
  "step_at (on_condition Condition_open) cs"
  "step_at (on_condition Condition_close) cs"
  "step_at (on_condition Condition_paren) cs"
  "step_at (on_condition Condition_and) cs"
  "step_at (on_condition Condition_or) cs"
  by (rule on_condition_step; simp)+

lemma balanced_new:
  assumes "Select_new con = Inr s"
  shows "balanced s"
proof -
  from assms have "s = \<lparr>sel_table = None, sel_columns = None, sel_order = [], sel_group = [],
                sel_distinct = False, sel_limit = None, sel_joins = [], sel_where = None,
                sel_having = None, sel_unions = [], sel_offset = None, sel_values = [],
                sel_query = None, sel_connection = con\<rparr>"
    by (simp add: Select_new_def split: if_splits)
  then show ?thesis by (simp add: balanced_def opt_marks_def opt_column_clean_def)
qed

lemma balanced_reset: "balanced (Select_reset s)"
  by (simp add: Select_reset_def balanced_def opt_marks_def opt_column_clean_def)

lemma balanced_from:
  assumes "balanced s" and "clean_name name" and "Select_from name s = Inr s'"
  shows "balanced s'"
proof -
  from assms(3) have "s' = s\<lparr>sel_table := Some (str_of name)\<rparr>"
    by (simp add: Select_from_def split: if_splits)
  then show ?thesis using assms(1,2) by (simp add: balanced_def clean_name_def)
qed

lemma list_all_clean_names: "list_all clean_name xs \<Longrightarrow> list_all clean (map str_of xs)"
  by (induction xs) (simp_all add: clean_name_def)

lemma balanced_col:
  assumes "balanced s" and "list_all clean_name columns" and "Select_col columns s = Inr s'"
  shows "balanced s'"
proof -
  from assms(3) have "s' = s\<lparr>sel_columns := Some (map str_of columns)\<rparr>"
    by (simp add: Select_col_def split: if_splits)
  then show ?thesis using assms(1) list_all_clean_names [OF assms(2)] by (simp add: balanced_def)
qed

lemma balanced_distinct: "balanced s \<Longrightarrow> balanced (Select_distinct s)"
  by (simp add: Select_distinct_def balanced_def)

lemma balanced_offset:
  assumes "balanced s" and "Select_offset v s = Inr s'"
  shows "balanced s'"
proof -
  from assms(2) have "s' = s\<lparr>sel_offset := Some (nat (int_of v))\<rparr>"
    by (simp add: Select_offset_def split: if_splits)
  then show ?thesis using assms(1) by (simp add: balanced_def)
qed

lemma balanced_limit:
  assumes "balanced s" and "Select_limit v s = Inr s'"
  shows "balanced s'"
proof -
  from assms(2) have "s' = s\<lparr>sel_limit := Some (nat (int_of v))\<rparr>"
    by (simp add: Select_limit_def split: if_splits)
  then show ?thesis using assms(1) by (simp add: balanced_def)
qed

lemma balanced_groupBy:
  assumes "balanced s" and "list_all clean_name columns" and "Select_groupBy columns s = Inr s'"
  shows "balanced s'"
proof -
  from assms(3) have "s' = s\<lparr>sel_group := sel_group s @ map str_of columns\<rparr>"
    by (simp add: Select_groupBy_def split: if_splits)
  then show ?thesis using assms(1) list_all_clean_names [OF assms(2)] by (simp add: balanced_def)
qed

lemma balanced_orderBy:
  assumes "balanced s" and "clean_name column" and "Select_orderBy column type s = Inr s'"
  shows "balanced s'"
proof -
  from assms(3) have "s' = s\<lparr>sel_order := sel_order s
        @ [(str_of column, if type = DESC then ''DESC'' else ''ASC'')]\<rparr>"
    by (simp add: Select_orderBy_def split: if_splits)
  then show ?thesis using assms(1,2) by (simp add: balanced_def clean_name_def clean_def)
qed

lemma balanced_on_where:
  assumes "balanced s" and "sel_where s = Some c" and "marks (f c) = marks c"
    and "c_column (f c) = c_column c"
  shows "balanced (s\<lparr>sel_where := Some (f c)\<rparr>)"
  using assms by (simp add: balanced_def opt_marks_def opt_column_clean_def column_clean_def)

lemma balanced_on_new_where:
  assumes "balanced s" and "sel_where s = None" and "marks (f Condition_new) = 0"
    and "c_column (f Condition_new) = None"
  shows "balanced (s\<lparr>sel_where := Some (f Condition_new)\<rparr>)"
  using assms by (simp add: balanced_def opt_marks_def opt_column_clean_def column_clean_def)

lemma balanced_and:
  assumes "balanced s" and "Select_and s = Inr s'"
  shows "balanced s'"
proof -
  from assms(2) obtain c where "sel_where s = Some c" and "s' = s\<lparr>sel_where := Some (Condition_and c)\<rparr>"
    by (auto simp: Select_and_def split: option.splits)
  then show ?thesis using balanced_on_where [OF assms(1), of c Condition_and] by simp
qed

lemma balanced_or:
  assumes "balanced s" and "Select_or s = Inr s'"
  shows "balanced s'"
proof -
  from assms(2) obtain c where "sel_where s = Some c" and "s' = s\<lparr>sel_where := Some (Condition_or c)\<rparr>"
    by (auto simp: Select_or_def split: option.splits)
  then show ?thesis using balanced_on_where [OF assms(1), of c Condition_or] by simp
qed

lemma balanced_close:
  assumes "balanced s" and "Select_close s = Inr s'"
  shows "balanced s'"
proof -
  from assms(2) obtain c where "sel_where s = Some c" and "s' = s\<lparr>sel_where := Some (Condition_close c)\<rparr>"
    by (auto simp: Select_close_def split: option.splits)
  then show ?thesis using balanced_on_where [OF assms(1), of c Condition_close] by simp
qed

lemma balanced_paren:
  assumes "balanced s"
  shows "balanced (Select_paren s)"
proof (cases "sel_where s")
  case None
  have m: "marks (Condition_paren Condition_new) = 0" by simp
  have c: "c_column (Condition_paren Condition_new) = None" by (simp add: Condition_new_def)
  from balanced_on_new_where [of s Condition_paren, OF assms None m c] show ?thesis
    using None by (simp add: Select_paren_def)
next
  case (Some c)
  then show ?thesis
    using balanced_on_where [OF assms Some, of Condition_paren] by (simp add: Select_paren_def)
qed

lemma balanced_open:
  assumes "balanced s"
  shows "balanced (Select_open s)"
proof (cases "sel_where s")
  case None
  have m: "marks (Condition_open Condition_new) = 0" by simp
  have c: "c_column (Condition_open Condition_new) = None" by (simp add: Condition_new_def)
  from balanced_on_new_where [of s Condition_open, OF assms None m c] show ?thesis
    using None by (simp add: Select_open_def)
next
  case (Some c)
  then show ?thesis
    using balanced_on_where [OF assms Some, of Condition_open] by (simp add: Select_open_def)
qed

lemma balanced_where:
  assumes "balanced s" and "step_ok f" and "Select_where (Some f) s = Inr s'"
  shows "balanced s'"
proof -
  define c where "c = (case sel_where s of None \<Rightarrow> Condition_new | Some c \<Rightarrow> c)"
  from assms(3) obtain c' vs' where run: "f (c, sel_values s) = Inr (c', vs')"
    and s': "s' = s\<lparr>sel_where := Some c', sel_values := vs'\<rparr>"
    by (auto simp: Select_where_def c_def Let_def split: sum.splits)
  have cc: "column_clean c" and mc: "marks c = opt_marks (sel_where s)"
    using assms(1) by (auto simp: c_def balanced_def opt_column_clean_def opt_marks_def split: option.splits)
  from step_okD [OF assms(2) cc run] obtain ws where "column_clean c'"
    and "vs' = sel_values s @ ws" and "JNull \<notin> set ws" and "marks c' = marks c + length ws"
    by blast
  then show ?thesis
    using assms(1) mc unfolding s' balanced_def
    by (simp add: opt_marks_def opt_column_clean_def)
qed

lemma balanced_having:
  assumes "balanced s" and "step_ok f" and "Select_having (Some f) s = Inr s'"
  shows "balanced s'"
proof -
  define c where "c = (case sel_having s of None \<Rightarrow> Condition_new | Some c \<Rightarrow> c)"
  from assms(3) obtain c' vs' where run: "f (c, sel_values s) = Inr (c', vs')"
    and s': "s' = s\<lparr>sel_having := Some c', sel_values := vs'\<rparr>"
    by (auto simp: Select_having_def c_def Let_def split: sum.splits)
  have cc: "column_clean c" and mc: "marks c = opt_marks (sel_having s)"
    using assms(1) by (auto simp: c_def balanced_def opt_column_clean_def opt_marks_def split: option.splits)
  from step_okD [OF assms(2) cc run] obtain ws where "column_clean c'"
    and "vs' = sel_values s @ ws" and "JNull \<notin> set ws" and "marks c' = marks c + length ws"
    by blast
  then show ?thesis
    using assms(1) mc unfolding s' balanced_def
    by (simp add: opt_marks_def opt_column_clean_def)
qed

lemma balanced_add_join:
  assumes "balanced s" and "step_ok f" and "clean_name table" and "clean type"
    and "add_join type table (Some f) s = Inr s'"
  shows "balanced s'"
proof -
  from assms(5) obtain c' vs' where run: "f (Condition_new, sel_values s) = Inr (c', vs')"
    and s': "s' = s\<lparr>sel_joins := sel_joins s
               @ [\<lparr>j_table = str_of table, j_type = type, j_condition = c'\<rparr>], sel_values := vs'\<rparr>"
    by (auto simp: add_join_def split: if_splits sum.splits)
  from step_okD [OF assms(2) column_clean_Condition_new run] obtain ws where
    "vs' = sel_values s @ ws" and "JNull \<notin> set ws" and "marks c' = length ws"
    by auto
  then show ?thesis
    using assms(1,3,4) unfolding s' balanced_def
    by (simp add: clean_name_def)
qed

lemma balanced_add_union:
  assumes "balanced s" and "sub_ok (sel_connection s) f"
    and "add_union all msg (Some f) s = Inr s'"
  shows "balanced s'"
proof -
  from assms(3) obtain query vals where run: "run_subquery (sel_connection s) f = Inr (query, vals)"
    and s': "s' = s\<lparr>sel_unions := sel_unions s @ [(query, all)], sel_values := sel_values s @ vals\<rparr>"
    by (auto simp: add_union_def split: sum.splits)
  from assms(2) run have "placeholders query = length vals" and "JNull \<notin> set vals"
    by (auto simp: sub_ok_def)
  then show ?thesis
    using assms(1) unfolding s' balanced_def by simp
qed

lemma sub_ok_keeps: "keeps_balanced f \<Longrightarrow> sub_ok con f"
  unfolding sub_ok_def
proof (intro allI impI)
  fix query vals
  assume keeps: "keeps_balanced f" and run: "run_subquery con f = Inr (query, vals)"
  from run obtain s0 s1 where new: "Select_new con = Inr s0" and f: "f s0 = Inr s1"
    and build: "Select_build True s1 = Inr query" and vals: "vals = sel_values s1"
    by (auto simp: run_subquery_def split: sum.splits)
  have "balanced s1" using keeps balanced_new [OF new] f by (auto simp: keeps_balanced_def)
  then show "placeholders query = length vals \<and> JNull \<notin> set vals"
    using Select_build_balanced [OF _ build] vals by (simp add: balanced_def)
qed

section \<open>Clean chains\<close>

lemma sub_ok_run:
  assumes "\<And>s. balanced s \<longrightarrow> (\<forall>s'. select_run calls s = Inr s' \<longrightarrow> balanced s')"
  shows "sub_ok con (\<lambda>s. select_run calls s)"
  by (rule sub_ok_keeps) (use assms in \<open>auto simp: keeps_balanced_def\<close>)

lemma step_ok_run:
  assumes "\<And>cs. step_at (cond_run con calls) cs"
  shows "step_ok (\<lambda>cs. cond_run con calls cs)"
  using assms by (simp add: step_ok_def)

lemma cond_step_fun:
  "cond_step con (CCol name) = atomic (on_condition_result (Condition_col name))"
  "cond_step con (CRaw condition vals) = Condition_raw condition vals"
  "cond_step con CNot = atomic (on_condition Condition_not)"
  "cond_step con COpen = atomic (on_condition Condition_open)"
  "cond_step con CClose = atomic (on_condition Condition_close)"
  "cond_step con CParen = atomic (on_condition Condition_paren)"
  "cond_step con CAnd = atomic (on_condition Condition_and)"
  "cond_step con COr = atomic (on_condition Condition_or)"
  "cond_step con (CInDate x) = atomic (Condition_inDate x)"
  "cond_step con (CInTime x) = atomic (Condition_inTime con x)"
  "cond_step con (CInYear x) = atomic (Condition_inYear con x)"
  "cond_step con (CInMonth x) = atomic (Condition_inMonth con x)"
  "cond_step con (CInDay x) = atomic (Condition_inDay con x)"
  "cond_step con (CInHour x) = atomic (Condition_inHour con x)"
  "cond_step con (CInMinute x) = atomic (Condition_inMinute con x)"
  "cond_step con (CInSecond x) = atomic (Condition_inSecond con x)"
  "cond_step con (CEqual x) = atomic (Condition_equal x)"
  "cond_step con (CLessThan x) = atomic (Condition_lessThan x)"
  "cond_step con (CLessThanOrEqual x) = atomic (Condition_lessThanOrEqual x)"
  "cond_step con (CGreaterThan x) = atomic (Condition_greaterThan x)"
  "cond_step con (CGreaterThanOrEqual x) = atomic (Condition_greaterThanOrEqual x)"
  "cond_step con (CBetween x y) = atomic (Condition_between x y)"
  "cond_step con (CIn xs) = atomic (Condition_in xs)"
  "cond_step con (CLike x) = atomic (Condition_like x)"
  "cond_step con CIsNull = atomic Condition_isNull"
  "cond_step con (CInSubquery None) = atomic (Condition_inSubquery con None)"
  "cond_step con (CInSubquery (Some scalls)) = atomic (Condition_inSubquery con (Some (\<lambda>s. select_run scalls s)))"
  "cond_step con (CExists None) = atomic (Condition_exists con None)"
  "cond_step con (CExists (Some scalls)) = atomic (Condition_exists con (Some (\<lambda>s. select_run scalls s)))"
  "cond_step con (CAny operator None) = atomic (Condition_any con operator None)"
  "cond_step con (CAny operator (Some scalls)) = atomic (Condition_any con operator (Some (\<lambda>s. select_run scalls s)))"
  "cond_step con (CAll operator None) = atomic (Condition_all con operator None)"
  "cond_step con (CAll operator (Some scalls)) = atomic (Condition_all con operator (Some (\<lambda>s. select_run scalls s)))"
  by (rule ext, simp)+

lemma cond_run_fun:
  "cond_run con [] = Inr"
  "cond_run con (call # calls) =
     (\<lambda>cs. case cond_step con call cs of Inl left \<Rightarrow> Inl left | Inr cs' \<Rightarrow> cond_run con calls cs')"
  by (rule ext, simp)+

lemma subquery_case:
  assumes "clean_select_calls scalls \<Longrightarrow>
      (\<And>s. balanced s \<longrightarrow> (\<forall>s'. select_run scalls s = Inr s' \<longrightarrow> balanced s'))"
    and "clean_select_calls scalls"
  shows "case Some (\<lambda>s. select_run scalls s) of None \<Rightarrow> True | Some f \<Rightarrow> sub_ok con f"
  using sub_ok_run [of scalls con] assms by simp

lemma union_case:
  assumes "clean_select_calls scalls \<Longrightarrow>
      (\<And>s. balanced s \<longrightarrow> (\<forall>s'. select_run scalls s = Inr s' \<longrightarrow> balanced s'))"
    and "clean_select_calls scalls"
  shows "sub_ok con (\<lambda>s. select_run scalls s)"
  using sub_ok_run [of scalls con] assms by simp

lemma callback_case:
  assumes "clean_cond_calls calls \<Longrightarrow> (\<And>cs. step_at (cond_run con calls) cs)"
    and "clean_cond_calls calls"
  shows "step_ok (\<lambda>cs. cond_run con calls cs)"
  using step_ok_run [of con calls] assms by simp

lemma clean_calls_ok:
  "clean_cond_call call \<longrightarrow> step_at (cond_step con call) cs"
  "clean_cond_calls calls \<longrightarrow> step_at (cond_run con calls) cs"
  "clean_select_call scall \<longrightarrow> balanced s \<longrightarrow> (\<forall>s'. select_step scall s = Inr s' \<longrightarrow> balanced s')"
  "clean_select_calls scalls \<longrightarrow> balanced s \<longrightarrow> (\<forall>s'. select_run scalls s = Inr s' \<longrightarrow> balanced s')"
proof (induction con call cs and con calls cs and scall s and scalls s
    rule: cond_step_cond_run_select_step_select_run.induct)
  case (1 con name cs)
  show ?case by (simp add: cond_step_fun col_step)
next
  case (2 con condition vals cs)
  show ?case by (simp add: cond_step_fun raw_step)
next
  case (22 con x y cs)
  show ?case by (simp add: cond_step_fun between_step)
next
  case (23 con xs cs)
  show ?case by (simp add: cond_step_fun in_step)
next
  case (25 con cs)
  show ?case by (simp add: cond_step_fun isNull_step)
next
  case (26 con cs)
  show ?case by (simp add: cond_step_fun inSubquery_step)
next
  case (27 con calls cs)
  show ?case
  proof
    assume "clean_cond_call (CInSubquery (Some calls))"
    then have "clean_select_calls calls" by simp
    from subquery_case [OF _ this, of con] "27" this
    show "step_at (cond_step con (CInSubquery (Some calls))) cs"
      unfolding cond_step_fun step_at_atomic by (intro inSubquery_step) blast
  qed
next
  case (28 con cs)
  show ?case by (simp add: cond_step_fun exists_step)
next
  case (29 con calls cs)
  show ?case
  proof
    assume "clean_cond_call (CExists (Some calls))"
    then have "clean_select_calls calls" by simp
    from subquery_case [OF _ this, of con] "29" this
    show "step_at (cond_step con (CExists (Some calls))) cs"
      unfolding cond_step_fun step_at_atomic by (intro exists_step) blast
  qed
next
  case (30 con operator cs)
  show ?case by (simp add: cond_step_fun Condition_any_def clean_def quantified_step)
next
  case (31 con operator calls cs)
  show ?case
  proof
    assume "clean_cond_call (CAny operator (Some calls))"
    then have "clean_select_calls calls" by simp
    from subquery_case [OF _ this, of con] "31" this
    have "case Some (\<lambda>s. select_run calls s) of None \<Rightarrow> True | Some f \<Rightarrow> sub_ok con f"
      by blast
    then show "step_at (cond_step con (CAny operator (Some calls))) cs"
      unfolding cond_step_fun step_at_atomic Condition_any_def by (rule quantified_step) (simp add: clean_def)
  qed
next
  case (32 con operator cs)
  show ?case by (simp add: cond_step_fun Condition_all_def clean_def quantified_step)
next
  case (33 con operator calls cs)
  show ?case
  proof
    assume "clean_cond_call (CAll operator (Some calls))"
    then have "clean_select_calls calls" by simp
    from subquery_case [OF _ this, of con] "33" this
    have "case Some (\<lambda>s. select_run calls s) of None \<Rightarrow> True | Some f \<Rightarrow> sub_ok con f"
      by blast
    then show "step_at (cond_step con (CAll operator (Some calls))) cs"
      unfolding cond_step_fun step_at_atomic Condition_all_def by (rule quantified_step) (simp add: clean_def)
  qed
next
  case (34 con cs)
  show ?case by (simp add: cond_run_fun step_at_return)
next
  case (35 con call calls cs)
  show ?case
  proof
    assume "clean_cond_calls (call # calls)"
    then have c1: "clean_cond_call call" and c2: "clean_cond_calls calls" by simp_all
    show "step_at (cond_run con (call # calls)) cs"
      unfolding cond_run_fun(2)
      by (rule step_at_bind [where f = "cond_step con call" and g = "cond_run con calls"])
        (use "35" c1 c2 in simp_all)
  qed
next
  case (36 name s)
  show ?case using balanced_from [of s name] by simp
next
  case (37 columns s)
  show ?case using balanced_col [of s columns] by simp
next
  case (38 s)
  show ?case by (simp add: balanced_distinct)
next
  case (39 v s)
  show ?case using balanced_offset [of s v] by simp
next
  case (40 v s)
  show ?case using balanced_limit [of s v] by simp
next
  case (41 table s)
  show ?case by (simp add: Select_join_def add_join_def)
next
  case (42 table calls s)
  show ?case
  proof (intro impI allI)
    fix s'
    assume "clean_select_call (SJoin table (Some calls))" and b: "balanced s"
      and "select_step (SJoin table (Some calls)) s = Inr s'"
    then have t: "clean_name table" and c: "clean_cond_calls calls"
      and run: "add_join ''INNER'' table (Some (\<lambda>cs. cond_run (sel_connection s) calls cs)) s = Inr s'"
      by (simp_all add: Select_join_def)
    from callback_case [OF _ c, of "sel_connection s"] "42"
    have "step_ok (\<lambda>cs. cond_run (sel_connection s) calls cs)" by blast
    from balanced_add_join [OF b this t _ run] show "balanced s'" by (simp add: clean_def)
  qed
next
  case (43 table s)
  show ?case by (simp add: Select_leftJoin_def add_join_def)
next
  case (44 table calls s)
  show ?case
  proof (intro impI allI)
    fix s'
    assume "clean_select_call (SLeftJoin table (Some calls))" and b: "balanced s"
      and "select_step (SLeftJoin table (Some calls)) s = Inr s'"
    then have t: "clean_name table" and c: "clean_cond_calls calls"
      and run: "add_join ''LEFT'' table (Some (\<lambda>cs. cond_run (sel_connection s) calls cs)) s = Inr s'"
      by (simp_all add: Select_leftJoin_def)
    from callback_case [OF _ c, of "sel_connection s"] "44"
    have "step_ok (\<lambda>cs. cond_run (sel_connection s) calls cs)" by blast
    from balanced_add_join [OF b this t _ run] show "balanced s'" by (simp add: clean_def)
  qed
next
  case (45 table s)
  show ?case by (simp add: Select_rightJoin_def add_join_def)
next
  case (46 table calls s)
  show ?case
  proof (intro impI allI)
    fix s'
    assume "clean_select_call (SRightJoin table (Some calls))" and b: "balanced s"
      and "select_step (SRightJoin table (Some calls)) s = Inr s'"
    then have t: "clean_name table" and c: "clean_cond_calls calls"
      and run: "add_join ''RIGHT'' table (Some (\<lambda>cs. cond_run (sel_connection s) calls cs)) s = Inr s'"
      by (simp_all add: Select_rightJoin_def)
    from callback_case [OF _ c, of "sel_connection s"] "46"
    have "step_ok (\<lambda>cs. cond_run (sel_connection s) calls cs)" by blast
    from balanced_add_join [OF b this t _ run] show "balanced s'" by (simp add: clean_def)
  qed
next
  case (47 columns s)
  show ?case using balanced_groupBy [of s columns] by simp
next
  case (48 column type s)
  show ?case using balanced_orderBy [of s column type] by simp
next
  case (49 s)
  show ?case by (simp add: Select_where_def)
next
  case (50 calls s)
  show ?case
  proof (intro impI allI)
    fix s'
    assume "clean_select_call (SWhere (Some calls))" and b: "balanced s"
      and "select_step (SWhere (Some calls)) s = Inr s'"
    then have c: "clean_cond_calls calls"
      and run: "Select_where (Some (\<lambda>cs. cond_run (sel_connection s) calls cs)) s = Inr s'"
      by simp_all
    from callback_case [OF _ c, of "sel_connection s"] "50"
    have "step_ok (\<lambda>cs. cond_run (sel_connection s) calls cs)" by blast
    from balanced_where [OF b this run] show "balanced s'" .
  qed
next
  case (51 s)
  show ?case by (simp add: Select_having_def)
next
  case (52 calls s)
  show ?case
  proof (intro impI allI)
    fix s'
    assume "clean_select_call (SHaving (Some calls))" and b: "balanced s"
      and "select_step (SHaving (Some calls)) s = Inr s'"
    then have c: "clean_cond_calls calls"
      and run: "Select_having (Some (\<lambda>cs. cond_run (sel_connection s) calls cs)) s = Inr s'"
      by simp_all
    from callback_case [OF _ c, of "sel_connection s"] "52"
    have "step_ok (\<lambda>cs. cond_run (sel_connection s) calls cs)" by blast
    from balanced_having [OF b this run] show "balanced s'" .
  qed
next
  case (53 s)
  show ?case by (simp add: Select_union_def add_union_def)
next
  case (54 calls s)
  show ?case
  proof (intro impI allI)
    fix s'
    assume "clean_select_call (SUnion (Some calls))" and b: "balanced s"
      and "select_step (SUnion (Some calls)) s = Inr s'"
    then have c: "clean_select_calls calls"
      and run: "add_union False ''Invalid UNION subquery'' (Some (\<lambda>t. select_run calls t)) s = Inr s'"
      by (simp_all add: Select_union_def)
    from union_case [OF _ c, of "sel_connection s"] "54"
    have "sub_ok (sel_connection s) (\<lambda>t. select_run calls t)" by blast
    from balanced_add_union [OF b this run] show "balanced s'" .
  qed
next
  case (55 s)
  show ?case by (simp add: Select_unionAll_def add_union_def)
next
  case (56 calls s)
  show ?case
  proof (intro impI allI)
    fix s'
    assume "clean_select_call (SUnionAll (Some calls))" and b: "balanced s"
      and "select_step (SUnionAll (Some calls)) s = Inr s'"
    then have c: "clean_select_calls calls"
      and run: "add_union True ''Invalid UNION ALL subquery'' (Some (\<lambda>t. select_run calls t)) s = Inr s'"
      by (simp_all add: Select_unionAll_def)
    from union_case [OF _ c, of "sel_connection s"] "56"
    have "sub_ok (sel_connection s) (\<lambda>t. select_run calls t)" by blast
    from balanced_add_union [OF b this run] show "balanced s'" .
  qed
next
  case (57 s)
  show ?case using balanced_and [of s] by simp
next
  case (58 s)
  show ?case using balanced_or [of s] by simp
next
  case (59 s)
  show ?case by (simp add: balanced_paren)
next
  case (60 s)
  show ?case by (simp add: balanced_open)
next
  case (61 s)
  show ?case using balanced_close [of s] by simp
next
  case (62 s)
  show ?case by (simp add: balanced_reset)
next
  case (63 s)
  show ?case by simp
next
  case (64 call calls s)
  show ?case
  proof (intro impI allI)
    fix s'
    assume "clean_select_calls (call # calls)" and b: "balanced s"
      and run: "select_run (call # calls) s = Inr s'"
    then have c1: "clean_select_call call" and c2: "clean_select_calls calls" by simp_all
    from run obtain s1 where s1: "select_step call s = Inr s1" and s': "select_run calls s1 = Inr s'"
      by (auto split: sum.splits)
    from "64"(1) c1 b s1 have "balanced s1" by blast
    with "64"(2) [OF s1] c2 s' show "balanced s'" by blast
  qed
qed (simp_all add: cond_step_fun method_steps token_steps)

section \<open>INSERT, DELETE and UPDATE statements\<close>


lemma insert_ok_row:
  assumes "insert_ok s" and "clean_row row" and "Insert_row row s = Inr s'"
  shows "insert_ok s'"
proof (cases row)
  case NotObj
  with assms(3) show ?thesis by (simp add: Insert_row_def)
next
  case (Obj kvs)
  have keys: "list_all clean (map fst kvs)"
    using assms(2) Obj by (simp add: list_all_iff)
  from assms(3) Obj have "s' = s\<lparr>ins_values := ins_values s @ [map snd kvs]\<rparr> \<or>
      s' = s\<lparr>ins_columns := Some (map fst kvs), ins_values := ins_values s @ [map snd kvs]\<rparr>"
    by (auto simp: Insert_row_def Let_def split: option.splits if_splits sum.splits)
  then show ?thesis using assms(1) keys by (auto simp: insert_ok_def)
qed

lemma insert_ok_row_each:
  "insert_ok s \<Longrightarrow> list_all clean_row rows \<Longrightarrow> Insert_row_each rows s = Inr s' \<Longrightarrow> insert_ok s'"
proof (induction rows arbitrary: s)
  case Nil
  then show ?case by simp
next
  case (Cons row rows)
  then show ?case by (auto split: sum.splits dest: insert_ok_row)
qed

lemma insert_ok_step:
  assumes "insert_ok s" and "clean_insert_call call" and "insert_step call s = Inr s'"
  shows "insert_ok s'"
proof (cases call)
  case (IInto table)
  with assms show ?thesis
    by (auto simp: Insert_into_def insert_ok_def clean_name_def split: if_splits)
next
  case (IReturning columns)
  with assms list_all_clean_names [of columns] show ?thesis
    by (auto simp: Insert_returning_def insert_ok_def split: if_splits)
next
  case (IRow row)
  with assms show ?thesis by (auto dest: insert_ok_row)
next
  case (IRows rows)
  with assms show ?thesis
    by (cases rows) (auto simp: Insert_rows_def split: if_splits dest: insert_ok_row_each)
next
  case IReset
  with assms show ?thesis by (auto simp: Insert_reset_def insert_ok_def)
qed

lemma insert_ok_run:
  "insert_ok s \<Longrightarrow> list_all clean_insert_call calls \<Longrightarrow> insert_run calls s = Inr s' \<Longrightarrow> insert_ok s'"
proof (induction calls arbitrary: s)
  case Nil
  then show ?case by simp
next
  case (Cons call calls)
  then show ?case by (auto split: sum.splits dest: insert_ok_step)
qed





lemma delete_ok_on_condition:
  assumes "delete_ok s" and "marks c' = opt_marks (del_condition s)"
    and "column_clean c'"
  shows "delete_ok (s\<lparr>del_condition := Some c'\<rparr>)"
  using assms by (simp add: delete_ok_def opt_marks_def opt_column_clean_def)

lemma delete_ok_where:
  assumes "delete_ok s" and "step_ok f" and "Delete_where (Some f) s = Inr s'"
  shows "delete_ok s'"
proof -
  define c where "c = (case del_condition s of None \<Rightarrow> Condition_new | Some c \<Rightarrow> c)"
  from assms(3) obtain c' vs' where run: "f (c, del_values s) = Inr (c', vs')"
    and s': "s' = s\<lparr>del_condition := Some c', del_values := vs'\<rparr>"
    by (auto simp: Delete_where_def c_def Let_def split: sum.splits)
  have cc: "column_clean c" and mc: "marks c = opt_marks (del_condition s)"
    using assms(1)
    by (auto simp: c_def delete_ok_def opt_column_clean_def opt_marks_def split: option.splits)
  from step_okD [OF assms(2) cc run] obtain ws where "column_clean c'"
    and "vs' = del_values s @ ws" and "marks c' = marks c + length ws"
    by blast
  then show ?thesis
    using assms(1) mc unfolding s' delete_ok_def
    by (simp add: opt_marks_def opt_column_clean_def)
qed

lemma delete_ok_step:
  assumes "delete_ok s" and "clean_delete_call call" and "delete_step call s = Inr s'"
  shows "delete_ok s'"
proof (cases call)
  case (DFrom table)
  with assms show ?thesis
    by (auto simp: Delete_from_def delete_ok_def clean_name_def split: if_splits)
next
  case (DWhere condition)
  show ?thesis
  proof (cases condition)
    case None
    with assms DWhere show ?thesis by (simp add: Delete_where_def)
  next
    case (Some calls)
    have "step_ok (cond_run (del_connection s) calls)"
      using clean_calls_ok(2) [of calls "del_connection s"] assms(2) DWhere Some
      by (simp add: step_ok_def)
    with assms DWhere Some show ?thesis by (auto dest: delete_ok_where)
  qed
next
  case DAnd
  with assms obtain c where "del_condition s = Some c" "s' = s\<lparr>del_condition := Some (Condition_and c)\<rparr>"
    by (auto simp: Delete_and_def split: option.splits)
  with assms(1) delete_ok_on_condition [OF assms(1), of "Condition_and c"] show ?thesis
    by (simp add: opt_marks_def delete_ok_def opt_column_clean_def)
next
  case DOr
  with assms obtain c where "del_condition s = Some c" "s' = s\<lparr>del_condition := Some (Condition_or c)\<rparr>"
    by (auto simp: Delete_or_def split: option.splits)
  with assms(1) delete_ok_on_condition [OF assms(1), of "Condition_or c"] show ?thesis
    by (simp add: opt_marks_def delete_ok_def opt_column_clean_def)
next
  case DClose
  with assms obtain c where "del_condition s = Some c" "s' = s\<lparr>del_condition := Some (Condition_close c)\<rparr>"
    by (auto simp: Delete_close_def split: option.splits)
  with assms(1) delete_ok_on_condition [OF assms(1), of "Condition_close c"] show ?thesis
    by (simp add: opt_marks_def delete_ok_def opt_column_clean_def)
next
  case DParen
  define c where "c = (case del_condition s of None \<Rightarrow> Condition_new | Some c \<Rightarrow> c)"
  have "marks c = opt_marks (del_condition s)" and "column_clean c"
    using assms(1) by (auto simp: c_def delete_ok_def opt_marks_def opt_column_clean_def split: option.splits)
  with assms DParen delete_ok_on_condition [OF assms(1), of "Condition_paren c"] show ?thesis
    by (simp add: Delete_paren_def c_def)
next
  case DOpen
  define c where "c = (case del_condition s of None \<Rightarrow> Condition_new | Some c \<Rightarrow> c)"
  have "marks c = opt_marks (del_condition s)" and "column_clean c"
    using assms(1) by (auto simp: c_def delete_ok_def opt_marks_def opt_column_clean_def split: option.splits)
  with assms DOpen delete_ok_on_condition [OF assms(1), of "Condition_open c"] show ?thesis
    by (simp add: Delete_open_def c_def)
next
  case DReset
  with assms show ?thesis
    by (auto simp: Delete_reset_def delete_ok_def opt_marks_def opt_column_clean_def)
qed

lemma delete_ok_run:
  "delete_ok s \<Longrightarrow> list_all clean_delete_call calls \<Longrightarrow> delete_run calls s = Inr s' \<Longrightarrow> delete_ok s'"
proof (induction calls arbitrary: s)
  case Nil
  then show ?case by simp
next
  case (Cons call calls)
  then show ?case by (auto split: sum.splits dest: delete_ok_step)
qed








section \<open>Calls that raise\<close>







section \<open>Chains with caught throws\<close>


















text \<open>When every call returns, nothing is caught.\<close>

lemma select_run_caught: "select_run calls s = Inr s' \<Longrightarrow> select_caught calls s = s'"
  by (induction calls arbitrary: s) (auto split: sum.splits)

lemma insert_run_caught: "insert_run calls s = Inr s' \<Longrightarrow> insert_caught calls s = s'"
  by (induction calls arbitrary: s) (auto split: sum.splits)

lemma update_run_caught: "update_run calls s = Inr s' \<Longrightarrow> update_caught calls s = s'"
  by (induction calls arbitrary: s) (auto split: sum.splits)

lemma delete_run_caught: "delete_run calls s = Inr s' \<Longrightarrow> delete_caught calls s = s'"
  by (induction calls arbitrary: s) (auto split: sum.splits)

section \<open>Operands that are references\<close>







section \<open>Accepted calls return\<close>

lemma date_part_returns:
  "\<exists>l. exDate (JStr col) = Inr l"
  "(\<exists>l. exTime (JStr col) con = Inr l) \<longleftrightarrow> isPoolCon con"
  "(\<exists>l. exYear (JStr col) con = Inr l) \<longleftrightarrow> isPoolCon con"
  "(\<exists>l. exMonth (JStr col) con = Inr l) \<longleftrightarrow> isPoolCon con"
  "(\<exists>l. exDay (JStr col) con = Inr l) \<longleftrightarrow> isPoolCon con"
  "(\<exists>l. exHour (JStr col) con = Inr l) \<longleftrightarrow> isPoolCon con"
  "(\<exists>l. exMinute (JStr col) con = Inr l) \<longleftrightarrow> isPoolCon con"
  "(\<exists>l. exSecond (JStr col) con = Inr l) \<longleftrightarrow> isPoolCon con"
  by (simp_all add: exDate_def exTime_def exYear_def exMonth_def exDay_def exHour_def
      exMinute_def exSecond_def)

lemma comparison_returns:
  "(\<exists>c' vs'. comparison valid msg lhs sign x (c, vs) = Inr (c', vs')) \<longleftrightarrow>
     column_ok c \<and> operand_ok valid x \<and> (\<exists>l. lhs (the_column c) = Inr l)"
  by (auto simp: comparison_def split: sum.splits)


lemma subquery_builds_Some:
  "subquery_builds con (Some calls) \<longleftrightarrow> (\<exists>r. run_subquery con (\<lambda>s. select_run calls s) = Inr r)"
  by (simp add: subquery_builds_def split: sum.splits)

lemma accepted_returns:
  "(\<exists>cs'. cond_step con call (c, vs) = Inr cs') \<longleftrightarrow> accepted con call c"
proof (cases call)
  case (CCol name)
  then show ?thesis
    by (simp add: on_condition_result_def Condition_col_def split: sum.splits)
next
  case (CRaw condition vals)
  then show ?thesis by (simp add: Condition_raw_def)
next
  case (CBetween x y)
  then show ?thesis by (simp add: Condition_between_def)
next
  case (CIn xs)
  then show ?thesis by (simp add: Condition_in_def)
next
  case CIsNull
  then show ?thesis by (simp add: Condition_isNull_def)
next
  case (CInSubquery sub)
  then show ?thesis
    by (cases sub)
      (auto simp: Condition_inSubquery_def subquery_builds_def split: sum.splits prod.splits)
next
  case (CExists sub)
  then show ?thesis
    by (cases sub)
      (auto simp: Condition_exists_def subquery_builds_def split: sum.splits prod.splits)
next
  case (CAny operator sub)
  then show ?thesis
    by (cases sub; cases operator)
      (auto simp: Condition_any_def quantified_def subquery_builds_def
        split: sum.splits prod.splits)
next
  case (CAll operator sub)
  then show ?thesis
    by (cases sub; cases operator)
      (auto simp: Condition_all_def quantified_def subquery_builds_def
        split: sum.splits prod.splits)
qed (simp_all add: on_condition_def comparison_returns date_part_returns
    Condition_inDate_def Condition_inTime_def
    Condition_inYear_def Condition_inMonth_def Condition_inDay_def Condition_inHour_def
    Condition_inMinute_def Condition_inSecond_def Condition_equal_def Condition_lessThan_def
    Condition_lessThanOrEqual_def Condition_greaterThan_def Condition_greaterThanOrEqual_def
    Condition_like_def)





section \<open>The negation flag\<close>

lemma consumes_flagI:
  assumes "\<And>c vs c' vs'. m (c, vs) = Inr (c', vs') \<Longrightarrow>
     \<exists>fragment. c' = push_fragment (not_text c @ fragment) c \<and>
       m (c\<lparr>c_negate := False\<rparr>, vs) = Inr (push_fragment fragment (c\<lparr>c_negate := False\<rparr>), vs')"
  shows "consumes_flag m"
  unfolding consumes_flag_def
proof (intro allI impI)
  fix c vs c' vs'
  assume "m (c, vs) = Inr (c', vs')"
  from assms [OF this] obtain fragment where
    c': "c' = push_fragment (not_text c @ fragment) c"
    and m: "m (c\<lparr>c_negate := False\<rparr>, vs) = Inr (push_fragment fragment (c\<lparr>c_negate := False\<rparr>), vs')"
    by blast
  have "\<not> c_negate c'" using c' by (simp add: push_fragment_def)
  moreover have "c_stack c' = c_stack c @ [(if c_negate c then ''NOT '' else []) @ fragment]"
    using c' by (simp add: push_fragment_def not_text_def)
  moreover have "m (c\<lparr>c_negate := False\<rparr>, vs) = Inr (c'\<lparr>c_stack := c_stack c @ [fragment]\<rparr>, vs')"
    using m c' by (simp add: push_fragment_def)
  ultimately show "\<not> c_negate c' \<and>
        (\<exists>fragment.
           c_stack c' = c_stack c @ [(if c_negate c then ''NOT '' else []) @ fragment] \<and>
           m (c\<lparr>c_negate := False\<rparr>, vs) = Inr (c'\<lparr>c_stack := c_stack c @ [fragment]\<rparr>, vs'))"
    by blast
qed

lemma column_ok_negate [simp]: "column_ok (c\<lparr>c_negate := b\<rparr>) = column_ok c"
  by (simp add: column_ok_def)

lemma the_column_negate [simp]: "the_column (c\<lparr>c_negate := b\<rparr>) = the_column c"
  by (simp add: the_column_def)

lemma not_text_False [simp]: "not_text (c\<lparr>c_negate := False\<rparr>) = []"
  by (simp add: not_text_def)

lemma comparison_consumes: "consumes_flag (comparison valid msg lhs sign x)"
  by (rule consumes_flagI) (auto simp: comparison_def split: if_splits sum.splits)

lemma between_consumes: "consumes_flag (Condition_between x y)"
  by (rule consumes_flagI) (auto simp: Condition_between_def split: if_splits)

lemma in_consumes: "consumes_flag (Condition_in xs)"
  by (rule consumes_flagI) (auto simp: Condition_in_def split: if_splits)

lemma isNull_consumes: "consumes_flag Condition_isNull"
  by (rule consumes_flagI) (auto simp: Condition_isNull_def split: if_splits)

lemma inSubquery_consumes: "consumes_flag (Condition_inSubquery con sub)"
  by (rule consumes_flagI)
    (auto simp: Condition_inSubquery_def split: if_splits option.splits sum.splits prod.splits)

lemma exists_consumes: "consumes_flag (Condition_exists con sub)"
  by (rule consumes_flagI)
    (auto simp: Condition_exists_def split: if_splits option.splits sum.splits prod.splits)

lemma quantified_consumes: "consumes_flag (quantified word con operator sub)"
  by (rule consumes_flagI)
    (auto simp: quantified_def split: if_splits option.splits sum.splits prod.splits)

lemma method_consumes:
  "consumes_flag (Condition_inDate x)"
  "consumes_flag (Condition_inTime con x)"
  "consumes_flag (Condition_inYear con x)"
  "consumes_flag (Condition_inMonth con x)"
  "consumes_flag (Condition_inDay con x)"
  "consumes_flag (Condition_inHour con x)"
  "consumes_flag (Condition_inMinute con x)"
  "consumes_flag (Condition_inSecond con x)"
  "consumes_flag (Condition_equal x)"
  "consumes_flag (Condition_lessThan x)"
  "consumes_flag (Condition_lessThanOrEqual x)"
  "consumes_flag (Condition_greaterThan x)"
  "consumes_flag (Condition_greaterThanOrEqual x)"
  "consumes_flag (Condition_like x)"
  unfolding Condition_inDate_def Condition_inTime_def
      Condition_inYear_def Condition_inMonth_def Condition_inDay_def Condition_inHour_def
      Condition_inMinute_def Condition_inSecond_def Condition_equal_def Condition_lessThan_def
      Condition_lessThanOrEqual_def Condition_greaterThan_def Condition_greaterThanOrEqual_def
      Condition_like_def
  by (rule comparison_consumes)+

lemma terminal_consumes:
  assumes "is_terminal call"
  shows "consumes_flag (cond_step con call)"
proof (cases call)
  case (CInSubquery sub)
  then show ?thesis by (cases sub) (simp_all add: cond_step_fun inSubquery_consumes)
next
  case (CExists sub)
  then show ?thesis by (cases sub) (simp_all add: cond_step_fun exists_consumes)
next
  case (CAny operator sub)
  then show ?thesis
    by (cases sub) (simp_all add: cond_step_fun Condition_any_def quantified_consumes)
next
  case (CAll operator sub)
  then show ?thesis
    by (cases sub) (simp_all add: cond_step_fun Condition_all_def quantified_consumes)
qed (use assms in \<open>simp_all add: cond_step_fun method_consumes between_consumes in_consumes
    isNull_consumes\<close>)

lemma other_keeps_flag:
  assumes "\<not> is_terminal call" and "call \<noteq> CNot"
    and "cond_step con call (c, vs) = Inr (c', vs')"
  shows "c_negate c' = c_negate c \<and>
         cond_step con call (c\<lparr>c_negate := b\<rparr>, vs) = Inr (c'\<lparr>c_negate := b\<rparr>, vs')"
  using assms
  by (cases call)
    (auto simp: Condition_col_def Condition_raw_def on_condition_def on_condition_result_def
      Condition_open_def
      Condition_close_def Condition_paren_def Condition_and_def Condition_or_def
      split: if_splits sum.splits)

section \<open>Calls that raise and the negation flag\<close>

lemma terminal_raise:
  assumes "is_terminal call" and "cond_step con call cs = Inl (e, left)"
  shows "left = cs"
proof (cases call)
  case (CInSubquery sub)
  with assms show ?thesis by (cases sub) auto
next
  case (CExists sub)
  with assms show ?thesis by (cases sub) auto
next
  case (CAny operator sub)
  with assms show ?thesis by (cases sub) auto
next
  case (CAll operator sub)
  with assms show ?thesis by (cases sub) auto
qed (use assms in auto)

lemma raise_keeps_flag:
  assumes "cond_step con call (c, vs) = Inl (e, left)"
  shows "fst left = c"
proof (cases call)
  case (CRaw condition vals)
  with assms show ?thesis by (auto simp: Condition_raw_def split: if_splits)
next
  case (CInSubquery sub)
  with assms show ?thesis by (cases sub) auto
next
  case (CExists sub)
  with assms show ?thesis by (cases sub) auto
next
  case (CAny operator sub)
  with assms show ?thesis by (cases sub) auto
next
  case (CAll operator sub)
  with assms show ?thesis by (cases sub) auto
qed (use assms in auto)

lemma raise_not_accepted:
  assumes "cond_step con call (c, vs) = Inl left"
  shows "\<not> accepted con call c"
  using accepted_returns [of con call c vs] assms by auto

section \<open>Pagination\<close>

lemma Select_build_ok:
  "(\<exists>q. Select_build b s = Inr q) \<longleftrightarrow>
     (\<exists>t. sel_table s = Some t \<and> t \<noteq> []) \<and>
     (\<exists>j. build_joins (sel_joins s) = Inr j) \<and>
     (\<exists>w. build_clause '' WHERE '' (sel_where s) = Inr w) \<and>
     (\<exists>h. build_clause '' HAVING '' (sel_having s) = Inr h)"
  by (auto simp: Select_build_def Let_def split: option.splits sum.splits if_splits)

lemma isInt_of_int [simp]: "isInt (JNum (rat_of_int n))"
  by simp

lemma Select_limit_int:
  "0 \<le> n \<Longrightarrow> Select_limit (JNum (rat_of_int n)) s = Inr (s\<lparr>sel_limit := Some (nat n)\<rparr>)"
  by (simp add: Select_limit_def)

lemma Select_offset_int:
  "0 \<le> n \<Longrightarrow> Select_offset (JNum (rat_of_int n)) s = Inr (s\<lparr>sel_offset := Some (nat n)\<rparr>)"
  by (simp add: Select_offset_def)

lemma normal_items_positive: "1 \<le> normal_items items"
  by (cases items) (auto simp: normal_items_def Let_def le_floor_iff)

lemma normal_page_positive: "1 \<le> normal_page page"
  by (cases page) (auto simp: normal_page_def le_floor_iff)

lemma paginate_returns:
  assumes table: "sel_table s = Some t" "t \<noteq> []"
    and query: "sel_query s = None"
    and build: "Select_build False s = Inr q"
  shows "\<exists>b request s'. Select_paginate page items count result s = Inr (b, request, s')"
proof -
  define n where "n = normal_items items"
  define off where "off = (normal_page page - 1) * n"
  have n: "0 \<le> n" using normal_items_positive [of items] by (simp add: n_def)
  have off: "0 \<le> off"
    using normal_items_positive [of items] normal_page_positive [of page]
    by (simp add: off_def n_def)
  have ok: "\<And>c l k. \<exists>q'. Select_build False (s\<lparr>sel_columns := c, sel_limit := l, sel_offset := k\<rparr>) = Inr q'"
    using build Select_build_ok [of False s]
      Select_build_ok [of False "s\<lparr>sel_columns := _, sel_limit := _, sel_offset := _\<rparr>"]
    by auto
  from ok [where c = "Some [''COUNT(*) AS count'']" and l = "sel_limit s" and k = "sel_offset s"]
  obtain cq where "Select_build False (s\<lparr>sel_columns := Some [''COUNT(*) AS count'']\<rparr>) = Inr cq"
    by auto
  then have count: "Select_count s = Inr (cq, sel_values s)"
    using table query by (simp add: Select_count_def Select_get_query_def)
  from ok [where c = "sel_columns s" and l = "Some (nat n)" and k = "Some (nat off)"]
  obtain pq where "Select_build False (s\<lparr>sel_limit := Some (nat n), sel_offset := Some (nat off)\<rparr>) = Inr pq"
    by auto
  then have exec: "Select_exec (s\<lparr>sel_limit := Some (nat n), sel_offset := Some (nat off)\<rparr>)
      = Inr (pq, sel_values s)"
    using query by (simp add: Select_exec_def Select_get_query_def)
  show ?thesis
    unfolding Select_paginate_def Let_def n_def [symmetric] off_def [symmetric]
    by (simp only: count Select_limit_int [OF n] Select_offset_int [OF off] exec sum.case) blast
qed

lemma paginate_result:
  assumes "Select_paginate page items count result s = Inr (b, request, s')"
  shows "pg_result b = result \<and>
     pg_current b = (if isInt page \<and> 1 \<le> num_of page then int_of page else 1) \<and>
     pg_items b = (if isInt items \<and> 1 \<le> num_of items then int_of items else 10) \<and>
     s' = s\<lparr>sel_limit := Some (nat (pg_items b)),
             sel_offset := Some (nat ((pg_current b - 1) * pg_items b))\<rparr> \<and>
     Select_exec s' = Inr request \<and>
     pg_total_items b = count \<and>
     pg_total_pages b = \<lceil>rat_of_nat count / rat_of_int (pg_items b)\<rceil> \<and>
     pg_prev b = (if pg_current b = 1 then None else Some (pg_current b - 1)) \<and>
     pg_next b = (if pg_current b < pg_total_pages b then Some (pg_current b + 1) else None)"
proof -
  define n where "n = normal_items items"
  define p where "p = normal_page page"
  define off where "off = (p - 1) * n"
  have page: "p = (if isInt page \<and> 1 \<le> num_of page then int_of page else 1)"
    by (auto simp: p_def normal_page_def)
  have items: "n = (if isInt items \<and> 1 \<le> num_of items then int_of items else 10)"
    by (cases items) (auto simp: n_def normal_items_def Let_def)
  have n: "0 \<le> n" using normal_items_positive [of items] by (simp add: n_def)
  have off: "0 \<le> off"
    using normal_items_positive [of items] normal_page_positive [of page]
    by (simp add: off_def n_def p_def)
  define s2 where "s2 = s\<lparr>sel_limit := Some (nat n), sel_offset := Some (nat off)\<rparr>"
  have s2: "Select_offset (JNum (rat_of_int off)) (s\<lparr>sel_limit := Some (nat n)\<rparr>) = Inr s2"
    using Select_offset_int [OF off] by (simp add: s2_def)
  have "(case Select_count s of
           Inl left \<Rightarrow> Inl left
         | Inr count_request \<Rightarrow>
             (case Select_exec s2 of
                Inl e \<Rightarrow> Inl (e, s2)
              | Inr request \<Rightarrow>
                  Inr (\<lparr>pg_result = result, pg_current = p,
                         pg_prev = (if p - 1 = 0 then None else Some (p - 1)),
                         pg_next = (if p < \<lceil>rat_of_nat count / rat_of_int n\<rceil>
                                    then Some (p + 1) else None),
                         pg_items = n,
                         pg_total_pages = \<lceil>rat_of_nat count / rat_of_int n\<rceil>,
                         pg_total_items = count\<rparr>, request, s2)))
        = Inr (b, request, s')"
    using assms
    unfolding Select_paginate_def Let_def n_def [symmetric] p_def [symmetric] off_def [symmetric]
    by (simp only: Select_limit_int [OF n] s2 sum.case)
  then have "s' = s2" and "Select_exec s2 = Inr request"
    and "b = \<lparr>pg_result = result, pg_current = p,
               pg_prev = (if p - 1 = 0 then None else Some (p - 1)),
               pg_next = (if p < \<lceil>rat_of_nat count / rat_of_int n\<rceil> then Some (p + 1) else None),
               pg_items = n,
               pg_total_pages = \<lceil>rat_of_nat count / rat_of_int n\<rceil>,
               pg_total_items = count\<rparr>"
    by (auto split: sum.splits)
  then show ?thesis
    using page items by (simp add: s2_def off_def)
qed

section \<open>The sink of an UPDATE\<close>




section \<open>What exec hands to the connection\<close>





section \<open>Placeholders and the sink\<close>




section \<open>The validation of a condition\<close>

text \<open>
  C2: the chain \<open>col('a').equal(1).and().or().col('b').equal(2)\<close> puts \<open>AND\<close> and \<open>OR\<close>
  next to each other. The check for consecutive operators looks for \<open>AND\<close> after \<open>AND\<close>
  and \<open>OR\<close> after \<open>OR\<close> only, so \<open>build\<close> returns the text, in which \<open>OR\<close> directly
  follows \<open>AND\<close>, instead of raising.
\<close>

theorem Condition_build_accepts_AND_OR:
  "then_call
     (Condition_chain (PoolCon MySQL)
        [CCol (JStr ''a''), CEqual (Val (JNum 1)), CAnd, COr,
         CCol (JStr ''b''), CEqual (Val (JNum 2))])
     (Condition_build \<circ> fst)
   = Inr ''a = ? AND  OR b = ?'' \<and>
   regex_test ''AND'' ''OR'' ''a = ? AND  OR b = ?''"
  by code_simp

section \<open>Building twice\<close>

text \<open>
  C3: \<open>build\<close> of an \<open>Insert\<close> or an \<open>Update\<close> removes the \<open>null\<close> entries from the sink and
  renders from the sink, so with a \<open>null\<close> row value the second \<open>build\<close> returns another
  text than the first: a placeholder is lost for the \<open>Insert\<close>, and the \<open>NULL\<close> of the
  \<open>Update\<close> turns into a placeholder.
\<close>

theorem build_twice_with_null:
  "then_call
     (Insert_chain (PoolCon MySQL)
        [IInto (JStr ''t''), IRow (Obj [(''a'', JNull), (''b'', JStr ''x'')])])
     Insert_build_twice
   = Inr (''INSERT INTO t (a, b) VALUES (NULL, ?);'', ''INSERT INTO t (a, b) VALUES (?);'') \<and>
   then_call
     (Update_chain (PoolCon MySQL)
        [UTable (JStr ''t''), USet (Obj [(''a'', JNull), (''b'', JStr ''x'')]),
         UWhere (Some [CCol (JStr ''id''), CEqual (Val (JNum 1))])])
     Update_build_twice
   = Inr (''UPDATE t SET a = NULL, b = ? WHERE id = ?;'',
          ''UPDATE t SET a = ?, b = ? WHERE id = ?;'')"
  by code_simp

section \<open>Rows of an INSERT\<close>

text \<open>
  C4: a second row with the established keys in another order is accepted, and its
  values are appended in the order of its own keys: after \<open>row({id: 1, name: 'x'})\<close> and
  \<open>row({name: 'y', id: 2})\<close> the column list is \<open>id, name\<close> and the second row-vector is
  \<open>['y', 2]\<close>, not \<open>[2, 'y']\<close>.
\<close>

theorem Insert_row_other_key_order:
  "then_call
     (Insert_chain (PoolCon MySQL)
        [IInto (JStr ''users''),
         IRow (Obj [(''id'', JNum 1), (''name'', JStr ''x'')]),
         IRow (Obj [(''name'', JStr ''y''), (''id'', JNum 2)])])
     Insert_exec
   = Inr ((''INSERT INTO users (id, name) VALUES (?, ?), (?, ?);'',
           [JNum 1, JStr ''x'', JStr ''y'', JNum 2]),
          \<lparr>ins_table = Some ''users'', ins_columns = Some [''id'', ''name''],
             ins_returnings = None,
             ins_values = [[JNum 1, JStr ''x''], [JStr ''y'', JNum 2]],
             ins_query = None, ins_connection = PoolCon MySQL\<rparr>)"
  by code_simp

section \<open>Reset\<close>

text \<open>
  C5: \<open>Insert.reset\<close> leaves the returning-column list as it is, and \<open>Select.reset\<close>
  leaves the offset: a statement built after \<open>reset\<close> still carries the \<open>RETURNING\<close>
  columns, or the \<open>OFFSET\<close>, of the statement before.
\<close>

theorem reset_keeps_returnings_and_offset:
  "returned
     (then_call
        (Insert_chain (PoolCon PostgreSQL)
           [IInto (JStr ''users''), IReturning [JStr ''id''], IReset,
            IInto (JStr ''logs''), IRow (Obj [(''line'', JStr ''x'')])])
        Insert_build)
   = Inr ''INSERT INTO logs (line) VALUES (?) RETURNING id;'' \<and>
   then_call
     (Select_chain (PoolCon MySQL)
        [SFrom (JStr ''users''), SOffset (JNum 5), SReset, SFrom (JStr ''logs'')])
     (Select_build False)
   = Inr ''SELECT * FROM logs OFFSET 5;''"
  by code_simp

section \<open>Reference operands\<close>



section \<open>The negation flag is consumed by the next comparison that returns\<close>

text \<open>
  C7, as stated, fails for a comparison that raises: the checks of a terminal
  comparison come before it resets the flag, so after \<open>not()\<close> a call of \<open>equal\<close> with a
  refused value raises and leaves the flag set.
\<close>

theorem negation_flag_counterexample:
  "cond_run (PoolCon MySQL) [CCol (JStr ''a''), CNot, CEqual (Val JNull)] (Condition_new, [])
   = Inl (QueryError ''Invalid value'',
          (\<lparr>c_stack = [], c_negate = True, c_opened = 0, c_column = Some ''a''\<rparr>, [])) \<and>
   is_terminal (CEqual (Val JNull))"
  by code_simp

text \<open>
  C7 (amended): \<open>not\<close> sets the flag and nothing else. A terminal comparison returns
  exactly when it accepts its arguments and the condition; when it returns it leaves
  the flag false, and its fragment is the fragment it pushes without the flag, behind
  \<open>NOT \<close> when the flag was set; when it raises it leaves the condition and the sink,
  and so the flag, as they were. Every other method (\<open>raw\<close>, \<open>and\<close>, \<open>or\<close>, \<open>open\<close>,
  \<open>close\<close>, \<open>paren\<close>, \<open>col\<close>) leaves the flag as it is, whether it returns or raises, and
  does the same whatever the flag. So the flag is false after any terminal comparison
  that returns.
\<close>

theorem negation_flag:
  "(cond_step con CNot (c, vs) = Inr (c\<lparr>c_negate := True\<rparr>, vs)) \<and>
   (is_terminal call \<longrightarrow>
      (accepted con call c \<longrightarrow> (\<exists>c' vs'. cond_step con call (c, vs) = Inr (c', vs'))) \<and>
      (cond_step con call (c, vs) = Inr (c', vs') \<longrightarrow>
         \<not> c_negate c' \<and>
         (\<exists>fragment.
            c_stack c' = c_stack c @ [(if c_negate c then ''NOT '' else []) @ fragment] \<and>
            cond_step con call (c\<lparr>c_negate := False\<rparr>, vs)
              = Inr (c'\<lparr>c_stack := c_stack c @ [fragment]\<rparr>, vs'))) \<and>
      (\<forall>e left. cond_step con call (c, vs) = Inl (e, left) \<longrightarrow>
         \<not> accepted con call c \<and> left = (c, vs))) \<and>
   (\<not> is_terminal call \<longrightarrow> call \<noteq> CNot \<longrightarrow>
      (cond_step con call (c, vs) = Inr (c', vs') \<longrightarrow>
         c_negate c' = c_negate c \<and>
         (\<forall>b. cond_step con call (c\<lparr>c_negate := b\<rparr>, vs) = Inr (c'\<lparr>c_negate := b\<rparr>, vs'))) \<and>
      (\<forall>e left. cond_step con call (c, vs) = Inl (e, left) \<longrightarrow> c_negate (fst left) = c_negate c))"
proof (intro conjI impI allI)
  show "cond_step con CNot (c, vs) = Inr (c\<lparr>c_negate := True\<rparr>, vs)"
    by (simp add: on_condition_def Condition_not_def)
next
  assume "accepted con call c"
  with accepted_returns [of con call c vs]
  show "\<exists>c' vs'. cond_step con call (c, vs) = Inr (c', vs')" by simp
next
  assume "is_terminal call" and step: "cond_step con call (c, vs) = Inr (c', vs')"
  from terminal_consumes [OF this(1), of con] step
  show "\<not> c_negate c'"
    and "\<exists>fragment.
         c_stack c' = c_stack c @ [(if c_negate c then ''NOT '' else []) @ fragment] \<and>
         cond_step con call (c\<lparr>c_negate := False\<rparr>, vs)
           = Inr (c'\<lparr>c_stack := c_stack c @ [fragment]\<rparr>, vs')"
    unfolding consumes_flag_def by blast+
next
  fix e left
  assume "is_terminal call" and raise: "cond_step con call (c, vs) = Inl (e, left)"
  from terminal_raise [OF this] show "left = (c, vs)" .
  from raise_not_accepted [OF raise] show "\<not> accepted con call c" .
next
  assume "\<not> is_terminal call" and "call \<noteq> CNot" and "cond_step con call (c, vs) = Inr (c', vs')"
  from other_keeps_flag [OF this]
  show "c_negate c' = c_negate c"
    and "\<And>b. cond_step con call (c\<lparr>c_negate := b\<rparr>, vs) = Inr (c'\<lparr>c_negate := b\<rparr>, vs')"
    by blast+
next
  fix e left
  assume "cond_step con call (c, vs) = Inl (e, left)"
  from raise_keeps_flag [OF this] show "c_negate (fst left) = c_negate c" by simp
qed

text \<open>
  Instances with the flag set: \<open>exists\<close> with a subquery that builds consumes it, \<open>like\<close>
  with a refused value raises and leaves it set, \<open>and\<close> leaves it set, and \<open>raw\<close> refused
  at its second value leaves it set.
\<close>

theorem negation_flag_witness:
  "(\<exists>c' vs'. cond_step (PoolCon MySQL) (CExists (Some [SFrom (JStr ''t'')]))
      (\<lparr>c_stack = [], c_negate = True, c_opened = 0, c_column = None\<rparr>, [])
    = Inr (c', vs') \<and> \<not> c_negate c' \<and>
      (\<exists>fragment. c_stack c' = [''NOT '' @ fragment])) \<and>
   cond_step (PoolCon MySQL) (CLike (Val (JNum 1)))
      (\<lparr>c_stack = [], c_negate = True, c_opened = 0, c_column = Some ''a''\<rparr>, [])
    = Inl (QueryError ''Invalid value'',
           (\<lparr>c_stack = [], c_negate = True, c_opened = 0, c_column = Some ''a''\<rparr>, [])) \<and>
   cond_step (PoolCon MySQL) CAnd
      (\<lparr>c_stack = [''a = ?''], c_negate = False, c_opened = 0, c_column = None\<rparr>, [JNum 1])
    = Inr (\<lparr>c_stack = [''a = ?'', '' AND ''], c_negate = False, c_opened = 0, c_column = None\<rparr>,
           [JNum 1]) \<and>
   (\<exists>e left. cond_step (PoolCon MySQL) (CRaw (JStr ''a = ?'') [JNum 1, JNull])
      (\<lparr>c_stack = [], c_negate = True, c_opened = 0, c_column = None\<rparr>, [])
    = Inl (e, left) \<and> c_negate (fst left))"
proof -
  let ?con = "PoolCon MySQL"
  let ?n = "\<lparr>c_stack = [], c_negate = True, c_opened = 0, c_column = None\<rparr>"
  let ?a = "\<lparr>c_stack = [], c_negate = True, c_opened = 0, c_column = Some ''a''\<rparr>"
  let ?d = "\<lparr>c_stack = [''a = ?''], c_negate = True, c_opened = 0, c_column = None\<rparr>"
  let ?d' = "\<lparr>c_stack = [''a = ?'', '' AND ''], c_negate = True, c_opened = 0, c_column = None\<rparr>"
  have t1: "is_terminal (CExists (Some [SFrom (JStr ''t'')]))" by simp
  have t2: "accepted ?con (CExists (Some [SFrom (JStr ''t'')])) ?n" by code_simp
  from negation_flag [of ?con ?n "[]" "CExists (Some [SFrom (JStr ''t'')])"] t1 t2
  obtain c1 vs1 where r: "cond_step ?con (CExists (Some [SFrom (JStr ''t'')])) (?n, []) = Inr (c1, vs1)"
    by blast
  from negation_flag [of ?con ?n "[]" "CExists (Some [SFrom (JStr ''t'')])" c1 vs1] t1 r
  have "\<not> c_negate c1"
    and "\<exists>fragment. c_stack c1 = c_stack ?n @ [(if c_negate ?n then ''NOT '' else []) @ fragment]"
    by blast+
  with r have first: "\<exists>c' vs'. cond_step ?con (CExists (Some [SFrom (JStr ''t'')])) (?n, [])
      = Inr (c', vs') \<and> \<not> c_negate c' \<and> (\<exists>fragment. c_stack c' = [''NOT '' @ fragment])"
    by auto
  have l1: "is_terminal (CLike (Val (JNum 1)))" by simp
  have l2: "\<not> accepted ?con (CLike (Val (JNum 1))) ?a" by code_simp
  have "\<exists>e left. cond_step ?con (CLike (Val (JNum 1))) (?a, []) = Inl (e, left)"
  proof (cases "cond_step ?con (CLike (Val (JNum 1))) (?a, [])")
    case (Inl x)
    then show ?thesis by (cases x) simp
  next
    case (Inr x)
    then show ?thesis using accepted_returns [of ?con "CLike (Val (JNum 1))" ?a "[]"] l2 by simp
  qed
  then obtain e left where raise: "cond_step ?con (CLike (Val (JNum 1))) (?a, []) = Inl (e, left)"
    by blast
  from negation_flag [of ?con ?a "[]" "CLike (Val (JNum 1))"] l1 raise
  have "left = (?a, [])" by blast
  moreover have "e = QueryError ''Invalid value''"
  proof -
    have "cond_step ?con (CLike (Val (JNum 1))) (?a, []) = Inl (QueryError ''Invalid value'', (?a, []))"
      by code_simp
    with raise show ?thesis by simp
  qed
  ultimately have second: "cond_step ?con (CLike (Val (JNum 1))) (?a, [])
      = Inl (QueryError ''Invalid value'', (?a, []))"
    using raise by simp
  have n1: "\<not> is_terminal CAnd" "CAnd \<noteq> CNot" by simp_all
  have n2: "cond_step ?con CAnd (?d, [JNum 1]) = Inr (?d', [JNum 1])" by code_simp
  from negation_flag [of ?con ?d "[JNum 1]" CAnd ?d' "[JNum 1]"] n1 n2
  have "\<forall>b. cond_step ?con CAnd (?d\<lparr>c_negate := b\<rparr>, [JNum 1]) = Inr (?d'\<lparr>c_negate := b\<rparr>, [JNum 1])"
    by blast
  then have "cond_step ?con CAnd (?d\<lparr>c_negate := False\<rparr>, [JNum 1])
      = Inr (?d'\<lparr>c_negate := False\<rparr>, [JNum 1])" ..
  then have third: "cond_step ?con CAnd
      (\<lparr>c_stack = [''a = ?''], c_negate = False, c_opened = 0, c_column = None\<rparr>, [JNum 1])
    = Inr (\<lparr>c_stack = [''a = ?'', '' AND ''], c_negate = False, c_opened = 0, c_column = None\<rparr>,
           [JNum 1])"
    by simp
  have w1: "\<not> is_terminal (CRaw (JStr ''a = ?'') [JNum 1, JNull])"
    "CRaw (JStr ''a = ?'') [JNum 1, JNull] \<noteq> CNot" by simp_all
  have w2: "cond_step ?con (CRaw (JStr ''a = ?'') [JNum 1, JNull]) (?n, [])
      = Inl (QueryError ''Invalid condition value'', (?n, [JNum 1]))"
    by code_simp
  from negation_flag [of ?con ?n "[]" "CRaw (JStr ''a = ?'') [JNum 1, JNull]"] w1 w2
  have "c_negate (fst (?n, [JNum 1])) = c_negate ?n" by blast
  with w2 have fourth: "\<exists>e left. cond_step ?con (CRaw (JStr ''a = ?'') [JNum 1, JNull]) (?n, [])
      = Inl (e, left) \<and> c_negate (fst left)"
    by simp
  from first second third fourth show ?thesis by (intro conjI)
qed

section \<open>The date-part fragments per driver kind\<close>

text \<open>
  C8, as stated, fails for the date part on PostgreSQL: \<open>exDate\<close> takes no connection
  and returns \<open>DATE(col)\<close> whatever the driver, where the claim has the \<open>::DATE\<close> cast.
\<close>

theorem exDate_PostgreSQL_counterexample:
  "exDate (JStr ''created_at'') = Inr ''DATE(created_at)'' \<and>
   exDate (JStr ''created_at'') \<noteq> Inr (claimed_date_fragment PostgreSQL ''created_at'')"
  by code_simp

text \<open>
  C8 (amended): for every column text, the date-part helpers return exactly these
  fragments. The date part is \<open>DATE(col)\<close> for every driver kind, PostgreSQL included;
  MySQL gets \<open>TIME()\<close>, \<open>YEAR()\<close>, \<open>MONTH()\<close>, \<open>DAY()\<close>, \<open>HOUR()\<close>, \<open>MINUTE()\<close>, \<open>SECOND()\<close>
  around the column; PostgreSQL gets \<open>TO_CHAR(col, 'HH24:MI:SS')\<close> for the time part
  and \<open>EXTRACT(part FROM col)\<close> for year through second; SQLite gets \<open>STRFTIME\<close> with the
  matching format.
\<close>

theorem date_part_fragments:
  "exDate (JStr col) = Inr (''DATE('' @ col @ '')'') \<and>
   exTime (JStr col) (PoolCon MySQL) = Inr (''TIME('' @ col @ '')'') \<and>
   exYear (JStr col) (PoolCon MySQL) = Inr (''YEAR('' @ col @ '')'') \<and>
   exMonth (JStr col) (PoolCon MySQL) = Inr (''MONTH('' @ col @ '')'') \<and>
   exDay (JStr col) (PoolCon MySQL) = Inr (''DAY('' @ col @ '')'') \<and>
   exHour (JStr col) (PoolCon MySQL) = Inr (''HOUR('' @ col @ '')'') \<and>
   exMinute (JStr col) (PoolCon MySQL) = Inr (''MINUTE('' @ col @ '')'') \<and>
   exSecond (JStr col) (PoolCon MySQL) = Inr (''SECOND('' @ col @ '')'') \<and>
   exTime (JStr col) (PoolCon PostgreSQL) = Inr (''TO_CHAR('' @ col @ '', 'HH24:MI:SS')'') \<and>
   exYear (JStr col) (PoolCon PostgreSQL) = Inr (''EXTRACT(YEAR FROM '' @ col @ '')'') \<and>
   exMonth (JStr col) (PoolCon PostgreSQL) = Inr (''EXTRACT(MONTH FROM '' @ col @ '')'') \<and>
   exDay (JStr col) (PoolCon PostgreSQL) = Inr (''EXTRACT(DAY FROM '' @ col @ '')'') \<and>
   exHour (JStr col) (PoolCon PostgreSQL) = Inr (''EXTRACT(HOUR FROM '' @ col @ '')'') \<and>
   exMinute (JStr col) (PoolCon PostgreSQL) = Inr (''EXTRACT(MINUTE FROM '' @ col @ '')'') \<and>
   exSecond (JStr col) (PoolCon PostgreSQL) = Inr (''EXTRACT(SECOND FROM '' @ col @ '')'') \<and>
   exTime (JStr col) (PoolCon SQLite) = Inr (''STRFTIME('%H:%M:%S', '' @ col @ '')'') \<and>
   exYear (JStr col) (PoolCon SQLite) = Inr (''STRFTIME('%Y', '' @ col @ '')'') \<and>
   exMonth (JStr col) (PoolCon SQLite) = Inr (''STRFTIME('%m', '' @ col @ '')'') \<and>
   exDay (JStr col) (PoolCon SQLite) = Inr (''STRFTIME('%d', '' @ col @ '')'') \<and>
   exHour (JStr col) (PoolCon SQLite) = Inr (''STRFTIME('%H', '' @ col @ '')'') \<and>
   exMinute (JStr col) (PoolCon SQLite) = Inr (''STRFTIME('%M', '' @ col @ '')'') \<and>
   exSecond (JStr col) (PoolCon SQLite) = Inr (''STRFTIME('%S', '' @ col @ '')'')"
  by (simp add: exDate_def exTime_def exYear_def exMonth_def exDay_def exHour_def
      exMinute_def exSecond_def)

section \<open>The bundle of paginate\<close>

text \<open>
  C9, as stated, fails for a page beyond the last one: \<open>next\<close> is left out when the
  current page is not below the number of pages, not only on the last page. With 20
  items at 10 per page, page 5 has no \<open>next\<close>, and it is not the last of the 2 pages.
\<close>

theorem paginate_next_counterexample:
  "Select_paginate (JNum 5) (JNum 10) 20 ()
     \<lparr>sel_table = Some ''users'', sel_columns = None, sel_order = [], sel_group = [],
        sel_distinct = False, sel_limit = None, sel_joins = [], sel_where = None,
        sel_having = None, sel_unions = [], sel_offset = None, sel_values = [],
        sel_query = None, sel_connection = PoolCon MySQL\<rparr>
   = Inr (\<lparr>pg_result = (), pg_current = 5, pg_prev = Some 4, pg_next = None, pg_items = 10,
            pg_total_pages = 2, pg_total_items = 20\<rparr>,
          (''SELECT * FROM users LIMIT 10 OFFSET 40;'', []),
          \<lparr>sel_table = Some ''users'', sel_columns = None, sel_order = [], sel_group = [],
             sel_distinct = False, sel_limit = Some 10, sel_joins = [], sel_where = None,
             sel_having = None, sel_unions = [], sel_offset = Some 40, sel_values = [],
             sel_query = None, sel_connection = PoolCon MySQL\<rparr>) \<and>
   safe_integer (normal_page (JNum 5) * normal_items (JNum 10)) \<and> safe_integer (int 20)"
  by code_simp

text \<open>
  C9 (amended): let the page times the items, both as \<open>paginate\<close> normalizes them, and
  the total be safe integers. On a \<open>Select\<close> with a table that builds, \<open>paginate\<close>
  returns a bundle. The bundle it returns has the page set to 1 when the argument is
  below 1 or not an integer, the items set to 10 when the argument is below 1, not an
  integer or absent; the read is sent with that limit and the offset
  \<open>(page - 1) * items\<close>; \<open>total.pages\<close> is \<open>ceil(total.items / items)\<close>; \<open>prev\<close> is left out
  exactly when the current page is 1; and \<open>next\<close> is left out exactly when the current
  page is not below \<open>total.pages\<close>.
\<close>

theorem paginate_bundle:
  "safe_integer (normal_page page * normal_items items) \<longrightarrow> safe_integer (int count) \<longrightarrow>
   (\<forall>t q. sel_table s = Some t \<longrightarrow> t \<noteq> [] \<longrightarrow> sel_query s = None \<longrightarrow>
       Select_build False s = Inr q \<longrightarrow>
       (\<exists>b request s'. Select_paginate page items count result s = Inr (b, request, s'))) \<and>
   (\<forall>b request s'. Select_paginate page items count result s = Inr (b, request, s') \<longrightarrow>
       pg_result b = result \<and>
       pg_current b = (if isInt page \<and> 1 \<le> num_of page then int_of page else 1) \<and>
       pg_items b = (if isInt items \<and> 1 \<le> num_of items then int_of items else 10) \<and>
       s' = s\<lparr>sel_limit := Some (nat (pg_items b)),
               sel_offset := Some (nat ((pg_current b - 1) * pg_items b))\<rparr> \<and>
       Select_exec s' = Inr request \<and>
       pg_total_items b = count \<and>
       pg_total_pages b = \<lceil>rat_of_nat count / rat_of_int (pg_items b)\<rceil> \<and>
       pg_prev b = (if pg_current b = 1 then None else Some (pg_current b - 1)) \<and>
       pg_next b = (if pg_current b < pg_total_pages b then Some (pg_current b + 1) else None))"
  using paginate_returns [of s _ _ page items count result] paginate_result [of page items count result s]
  by blast

text \<open>
  The scenario of 55 items at 10 per page: 6 pages, and page 1 has no \<open>prev\<close> and has
  \<open>next\<close> 2.
\<close>

theorem paginate_bundle_witness:
  "\<exists>b request s'.
     Select_paginate (JNum 1) JUndefined 55 ()
       \<lparr>sel_table = Some ''users'', sel_columns = None, sel_order = [], sel_group = [],
          sel_distinct = False, sel_limit = None, sel_joins = [], sel_where = None,
          sel_having = None, sel_unions = [], sel_offset = None, sel_values = [],
          sel_query = None, sel_connection = PoolCon MySQL\<rparr>
     = Inr (b, request, s') \<and>
     pg_current b = 1 \<and> pg_items b = 10 \<and> pg_total_items b = 55 \<and> pg_total_pages b = 6 \<and>
     pg_prev b = None \<and> pg_next b = Some 2 \<and>
     sel_limit s' = Some 10 \<and> sel_offset s' = Some 0"
proof -
  let ?s = "\<lparr>sel_table = Some ''users'', sel_columns = None, sel_order = [], sel_group = [],
          sel_distinct = False, sel_limit = None, sel_joins = [], sel_where = None,
          sel_having = None, sel_unions = [], sel_offset = None, sel_values = [],
          sel_query = None, sel_connection = PoolCon MySQL\<rparr>"
  have safe: "safe_integer (normal_page (JNum 1) * normal_items JUndefined)"
    "safe_integer (int 55)"
    by code_simp+
  note page_facts = paginate_bundle [of "JNum 1" JUndefined 55 "?s" "()", rule_format, OF safe]
  have build: "Select_build False ?s = Inr ''SELECT * FROM users;''" by code_simp
  have "sel_table ?s = Some ''users''" "''users'' \<noteq> []" "sel_query ?s = None" by simp_all
  with page_facts build obtain b request s'
    where run: "Select_paginate (JNum 1) JUndefined 55 () ?s = Inr (b, request, s')"
    by blast
  have page: "isInt (JNum 1) \<and> 1 \<le> num_of (JNum 1)" "int_of (JNum 1) = 1" by code_simp+
  have items: "\<not> isInt JUndefined" by code_simp
  from page_facts run have facts:
    "pg_current b = (if isInt (JNum 1) \<and> 1 \<le> num_of (JNum 1) then int_of (JNum 1) else 1)"
    "pg_items b = (if isInt JUndefined \<and> 1 \<le> num_of JUndefined then int_of JUndefined else 10)"
    "s' = ?s\<lparr>sel_limit := Some (nat (pg_items b)),
               sel_offset := Some (nat ((pg_current b - 1) * pg_items b))\<rparr>"
    "pg_total_items b = 55"
    "pg_total_pages b = \<lceil>rat_of_nat 55 / rat_of_int (pg_items b)\<rceil>"
    "pg_prev b = (if pg_current b = 1 then None else Some (pg_current b - 1))"
    "pg_next b = (if pg_current b < pg_total_pages b then Some (pg_current b + 1) else None)"
    by blast+
  from facts(1) page have current: "pg_current b = 1" by simp
  from facts(2) items have per: "pg_items b = 10" by simp
  have "\<lceil>rat_of_nat 55 / rat_of_int 10\<rceil> = 6" by code_simp
  with facts(5) per have pages: "pg_total_pages b = 6" by simp
  from facts(3) current per have "sel_limit s' = Some 10" "sel_offset s' = Some 0" by simp_all
  with run current per pages facts(4,6,7) show ?thesis by auto
qed

section \<open>set replaces the sink of an UPDATE\<close>



end

